theory Spec2Isabelle
  imports Main "HOL-Library.Word"
begin

unbundle bit_operations_syntax

section \<open>UART link of the ESP32-C3 Matter node (app_main.cpp)\<close>

text \<open>
  The firmware talks to the peer board over a UART with frames
  \<^verbatim>\<open>[0xA5][len][cmd][payload...][crc]\<close>. All bytes are \<^verbatim>\<open>uint8_t\<close>, modelled as
  8-bit words, so that \<open>+\<close>, \<open>-\<close> and the shift wrap as in C.
\<close>

type_synonym u8 = "8 word"

definition FRAME_START :: u8 where "FRAME_START = 0xA5"
definition CRC_POLY :: u8 where "CRC_POLY = 0x31"

definition CMD_HELLO :: u8 where "CMD_HELLO = 0x01"
definition CMD_SET_MODE :: u8 where "CMD_SET_MODE = 0x02"
definition CMD_TRIGGER :: u8 where "CMD_TRIGGER = 0x03"
definition CMD_PING :: u8 where "CMD_PING = 0x04"
definition RSP_ACK :: u8 where "RSP_ACK = 0x80"
definition RSP_ERR :: u8 where "RSP_ERR = 0x81"
definition RSP_BUSY :: u8 where "RSP_BUSY = 0x82"
definition RSP_DONE :: u8 where "RSP_DONE = 0x83"

subsection \<open>crc8\<close>

text \<open>
  One pass of the inner \<^verbatim>\<open>for (j = 0; j < 8; j++)\<close> loop body: test the top bit,
  shift left by one (the result is stored back into a \<^verbatim>\<open>uint8_t\<close>) and XOR the
  polynomial in when the top bit was set.
\<close>

definition crc8_shift :: "u8 \<Rightarrow> u8" where
  "crc8_shift crc =
     (if crc AND 0x80 \<noteq> 0 then push_bit 1 crc XOR CRC_POLY else push_bit 1 crc)"

text \<open>The inner loop, \<open>j\<close> counting the passes that are left.\<close>

fun crc8_bits :: "nat \<Rightarrow> u8 \<Rightarrow> u8" where
  "crc8_bits 0 crc = crc"
| "crc8_bits (Suc j) crc = crc8_bits j (crc8_shift crc)"

text \<open>The outer loop over \<^verbatim>\<open>data[0..len)\<close>, with the running value as accumulator.\<close>

fun crc8_loop :: "u8 \<Rightarrow> u8 list \<Rightarrow> u8" where
  "crc8_loop crc [] = crc"
| "crc8_loop crc (b # data) = crc8_loop (crc8_bits 8 (crc XOR b)) data"

definition crc8 :: "u8 list \<Rightarrow> u8" where
  "crc8 data = crc8_loop 0x00 data"

subsection \<open>uart_send_frame\<close>

text \<open>
  What C leaves undefined is a value of the model: a write past the end of one of the two
  64-byte frame buffers, a CRC length \<^verbatim>\<open>buf_idx - 2\<close> that would be negative, and an index
  outside the four-element arrays \<^verbatim>\<open>g_mode_plugin_ids\<close> and \<^verbatim>\<open>mode_names\<close>.
\<close>

datatype fault = Frame_buf_overflow | Crc_len_underflow | Mode_index_out_of_range

text \<open>
  The argument pair \<^verbatim>\<open>(payload, payload_len)\<close> is the list \<open>payload\<close>, the null pointer
  and length 0 both being \<open>[]\<close>. \<^verbatim>\<open>len = 1 + payload_len\<close> is computed in \<^verbatim>\<open>uint8_t\<close>.
  The frame is assembled in \<^verbatim>\<open>uint8_t frame[64]\<close>: three header bytes at indices 0..2, the
  \<^verbatim>\<open>memcpy\<close> of the payload to index 3 onwards, then the CRC over \<^verbatim>\<open>frame[1..idx)\<close> at
  \<^verbatim>\<open>frame[idx]\<close>. There is no check of \<^verbatim>\<open>payload_len\<close> in the source; the model faults where
  the \<^verbatim>\<open>memcpy\<close> or the CRC store would leave the array. The result is the byte sequence
  handed to \<^verbatim>\<open>uart_write_bytes\<close>; whether the driver took all of it, which the function
  returns and no caller reads, is outside the model.
\<close>

definition uart_send_frame :: "u8 \<Rightarrow> u8 list \<Rightarrow> fault + u8 list" where
  "uart_send_frame c payload =
     (let len = 1 + (of_nat (length payload) :: u8);
          header = [FRAME_START, len, c]
      in if 3 + length payload > 64 then Inl Frame_buf_overflow
         else let body = header @ payload;
                  idx = length body;
                  crc = crc8 (drop 1 body)
              in if idx \<ge> 64 then Inl Frame_buf_overflow
                 else Inr (body @ [crc]))"

subsection \<open>uart_rx_task: the receive state machine\<close>

text \<open>
  The local variables of \<^verbatim>\<open>uart_rx_task\<close>. \<open>frame_buf\<close> is the array \<^verbatim>\<open>uint8_t frame_buf[64]\<close>
  as a function of the index; every store checks the index against the capacity 64.
\<close>

record rx_state =
  frame_buf :: "nat \<Rightarrow> u8"
  buf_idx :: u8
  state :: u8
  frame_len :: u8
  bytes_to_read :: u8
  cmd :: u8

text \<open>
  The state at task start: all scalars 0; the array is uninitialised, so its contents
  \<open>mem\<close> are arbitrary.
\<close>

definition rx_init :: "(nat \<Rightarrow> u8) \<Rightarrow> rx_state" where
  "rx_init mem =
     \<lparr>frame_buf = mem, buf_idx = 0, state = 0, frame_len = 0, bytes_to_read = 0, cmd = 0\<rparr>"

text \<open>\<^verbatim>\<open>frame_buf[buf_idx++] = b\<close>\<close>

definition buf_store :: "rx_state \<Rightarrow> u8 \<Rightarrow> fault + rx_state" where
  "buf_store r b =
     (if unat (buf_idx r) < 64
      then Inr (r\<lparr>frame_buf := (frame_buf r)(unat (buf_idx r) := b), buf_idx := buf_idx r + 1\<rparr>)
      else Inl Frame_buf_overflow)"

text \<open>The bytes \<^verbatim>\<open>p[0..n)\<close> of the array from index \<open>i\<close> on.\<close>

definition buf_slice :: "(nat \<Rightarrow> u8) \<Rightarrow> nat \<Rightarrow> nat \<Rightarrow> u8 list" where
  "buf_slice mem i n = map mem [i..<i + n]"

text \<open>
  What one byte makes the state machine do besides changing its variables: nothing, the
  invalid-length warning, the CRC error branch (calculated and received CRC), or the
  valid-frame branch with the command byte and the payload \<^verbatim>\<open>&frame_buf[3]\<close> of
  \<^verbatim>\<open>frame_len - 1\<close> bytes that are handed on.
\<close>

datatype rx_event =
    Invalid_length u8
  | Crc_error u8 u8
  | Frame_valid u8 "u8 list"

text \<open>The body of the \<^verbatim>\<open>for\<close> loop for one received byte \<open>b\<close>: the \<^verbatim>\<open>switch (state)\<close>.\<close>

definition rx_byte :: "rx_state \<Rightarrow> u8 \<Rightarrow> fault + rx_state \<times> rx_event option" where
  "rx_byte r b =
     (if state r = 0 then
        (if b = FRAME_START then
           (case buf_store r b of
              Inl f \<Rightarrow> Inl f
            | Inr r1 \<Rightarrow> Inr (r1\<lparr>state := 1\<rparr>, None))
         else Inr (r, None))
      else if state r = 1 then
        (case buf_store r b of
           Inl f \<Rightarrow> Inl f
         | Inr r1 \<Rightarrow>
             (let r2 = r1\<lparr>frame_len := b\<rparr>
              in if frame_len r2 = 0 \<or> frame_len r2 > 60
                 then Inr (r2\<lparr>state := 0, buf_idx := 0\<rparr>, Some (Invalid_length b))
                 else Inr (r2\<lparr>bytes_to_read := frame_len r2, state := 2\<rparr>, None)))
      else if state r = 2 then
        (case buf_store r b of
           Inl f \<Rightarrow> Inl f
         | Inr r1 \<Rightarrow>
             (let r2 = (if buf_idx r1 = 3 then r1\<lparr>cmd := b\<rparr> else r1);
                  r3 = r2\<lparr>bytes_to_read := bytes_to_read r2 - 1\<rparr>
              in if bytes_to_read r3 = 0
                 then Inr (r3\<lparr>state := 3\<rparr>, None)
                 else Inr (r3, None)))
      else if state r = 3 then
        (case buf_store r b of
           Inl f \<Rightarrow> Inl f
         | Inr r1 \<Rightarrow>
             (if unat (buf_idx r1) < 2 then Inl Crc_len_underflow
              else
                (let received_crc = b;
                     calc_crc = crc8 (buf_slice (frame_buf r1) 1 (unat (buf_idx r1) - 2));
                     payload_len = frame_len r1 - 1;
                     payload = buf_slice (frame_buf r1) 3 (unat payload_len);
                     r2 = r1\<lparr>state := 0, buf_idx := 0\<rparr>
                 in if calc_crc = received_crc
                    then Inr (r2, Some (Frame_valid (cmd r1) payload))
                    else Inr (r2, Some (Crc_error calc_crc received_crc)))))
      else Inr (r, None))"

text \<open>
  The \<^verbatim>\<open>for\<close> loop over the bytes read from the UART. The state lives across calls of
  \<^verbatim>\<open>uart_read_bytes\<close>, so a stream is the concatenation of what the reads return.
\<close>

fun uart_rx_bytes :: "rx_state \<Rightarrow> u8 list \<Rightarrow> fault + rx_state \<times> rx_event list" where
  "uart_rx_bytes r [] = Inr (r, [])"
| "uart_rx_bytes r (b # bs) =
     (case rx_byte r b of
        Inl f \<Rightarrow> Inl f
      | Inr (r1, ev) \<Rightarrow>
          (case uart_rx_bytes r1 bs of
             Inl f \<Rightarrow> Inl f
           | Inr (r2, evs) \<Rightarrow> Inr (r2, (case ev of None \<Rightarrow> [] | Some e \<Rightarrow> [e]) @ evs)))"

subsection \<open>Shared globals and the effects of the firmware\<close>

type_synonym u16 = "16 word"

text \<open>
  The globals of the file, with the function-static \<^verbatim>\<open>cleanup_done\<close> of
  \<^verbatim>\<open>mode_sync_task\<close>. \<^verbatim>\<open>g_target_mode\<close> is a C \<^verbatim>\<open>int\<close> (\<open>-1\<close> = none pending) and the
  two times are \<^verbatim>\<open>int64_t\<close> microseconds since boot, far from their bounds: both are \<open>int\<close>.
  \<^verbatim>\<open>g_mode_plugin_ids\<close> is the array of four endpoint ids as a function of the index.
\<close>

record device =
  g_switch_endpoint_id :: u16
  g_mode_plugin_ids :: "nat \<Rightarrow> u16"
  g_pulse_active :: bool
  g_target_mode :: int
  g_last_tap_time :: int
  g_last_execution_time :: int
  g_syncing_modes :: bool
  g_current_mode :: u8
  cleanup_done :: bool

text \<open>
  The calls into the UART driver, the LED, the GPIO, the timer and the state-reporting
  subsystem, in the order the code makes them. \<open>Report i v\<close> is
  \<^verbatim>\<open>attribute::report(g_mode_plugin_ids[i], OnOff, OnOff, v)\<close>, \<open>Led_blink count on_ms off_ms\<close>
  is \<^verbatim>\<open>led_blink\<close>, \<open>Task_delay ms\<close> is \<^verbatim>\<open>vTaskDelay(pdMS_TO_TICKS(ms))\<close>, \<open>Update_switch v\<close> is
  \<^verbatim>\<open>attribute::update(g_switch_endpoint_id, OnOff, OnOff, v)\<close>.
\<close>

datatype action =
    Uart_write "u8 list"
  | Led_blink int int int
  | Report nat bool
  | Task_delay nat
  | Gpio_signal bool
  | Pulse_timer_start int
  | Update_switch bool

definition led_ack :: "action list" where "led_ack = [Led_blink 2 100 100]"
definition led_command_sent :: "action list" where "led_command_sent = [Led_blink 1 500 0]"
definition led_error :: "action list" where "led_error = [Led_blink 5 50 50]"
definition led_hello :: "action list" where "led_hello = [Led_blink 3 300 300]"

definition uart_send_response :: "u8 \<Rightarrow> u8 list \<Rightarrow> fault + u8 list" where
  "uart_send_response response_cmd payload = uart_send_frame response_cmd payload"

subsection \<open>Command handlers\<close>

definition handle_cmd_hello :: "device \<Rightarrow> u8 list \<Rightarrow> fault + device \<times> action list" where
  "handle_cmd_hello d payload =
     (case uart_send_response RSP_ACK [] of
        Inl f \<Rightarrow> Inl f
      | Inr bs \<Rightarrow> Inr (d, Uart_write bs # led_hello))"

definition handle_cmd_ping :: "device \<Rightarrow> u8 list \<Rightarrow> fault + device \<times> action list" where
  "handle_cmd_ping d payload =
     (case uart_send_response RSP_ACK [] of
        Inl f \<Rightarrow> Inl f
      | Inr bs \<Rightarrow> Inr (d, Uart_write bs # led_ack))"

text \<open>
  The ACK branch ends in the source with the comment
  \<^verbatim>\<open>// TODO: In future, actually trigger skit here\<close> and the log line
  \<^verbatim>\<open>"Trigger acknowledged (placeholder)"\<close>: nothing else is called.
\<close>

definition handle_cmd_trigger :: "device \<Rightarrow> u8 list \<Rightarrow> fault + device \<times> action list" where
  "handle_cmd_trigger d payload =
     (if g_pulse_active d then
        (case uart_send_response RSP_BUSY [] of
           Inl f \<Rightarrow> Inl f
         | Inr bs \<Rightarrow> Inr (d, [Uart_write bs]))
      else
        (case uart_send_response RSP_ACK [] of
           Inl f \<Rightarrow> Inl f
         | Inr bs \<Rightarrow> Inr (d, Uart_write bs # led_command_sent)))"

text \<open>
  \<^verbatim>\<open>len < 1\<close> is the empty payload; \<^verbatim>\<open>payload[0]\<close> is the head of the list. The blink
  count \<^verbatim>\<open>mode + 1\<close> is computed in \<^verbatim>\<open>int\<close>.
\<close>

definition handle_cmd_set_mode :: "device \<Rightarrow> u8 list \<Rightarrow> fault + device \<times> action list" where
  "handle_cmd_set_mode d payload =
     (case payload of
        [] \<Rightarrow>
          (case uart_send_response RSP_ERR [] of
             Inl f \<Rightarrow> Inl f
           | Inr bs \<Rightarrow> Inr (d, Uart_write bs # led_error))
      | mode # _ \<Rightarrow>
          if mode > 3 then
            (case uart_send_response RSP_ERR [] of
               Inl f \<Rightarrow> Inl f
             | Inr bs \<Rightarrow> Inr (d, Uart_write bs # led_error))
          else
            (case uart_send_response RSP_ACK [] of
               Inl f \<Rightarrow> Inl f
             | Inr bs \<Rightarrow>
                 Inr (d\<lparr>g_current_mode := mode\<rparr>,
                      [Uart_write bs, Led_blink (uint mode + 1) 200 200])))"

text \<open>The valid-frame branch of the receive task: responses are logged, commands dispatched.\<close>

definition dispatch :: "device \<Rightarrow> u8 \<Rightarrow> u8 list \<Rightarrow> fault + device \<times> action list" where
  "dispatch d c payload =
     (if c \<ge> 0x80 then Inr (d, [])
      else if c = CMD_HELLO then handle_cmd_hello d payload
      else if c = CMD_PING then handle_cmd_ping d payload
      else if c = CMD_TRIGGER then handle_cmd_trigger d payload
      else if c = CMD_SET_MODE then handle_cmd_set_mode d payload
      else
        (case uart_send_response RSP_ERR [] of
           Inl f \<Rightarrow> Inl f
         | Inr bs \<Rightarrow> Inr (d, Uart_write bs # led_error)))"

text \<open>
  What the branches of the state machine do to the rest of the system: the invalid-length
  branch only logs, the CRC error branch calls \<^verbatim>\<open>led_error\<close>, the valid-frame branch
  dispatches.
\<close>

definition rx_effect :: "device \<Rightarrow> rx_event option \<Rightarrow> fault + device \<times> action list" where
  "rx_effect d ev =
     (case ev of
        None \<Rightarrow> Inr (d, [])
      | Some (Invalid_length l) \<Rightarrow> Inr (d, [])
      | Some (Crc_error calc_crc received_crc) \<Rightarrow> Inr (d, led_error)
      | Some (Frame_valid c payload) \<Rightarrow> dispatch d c payload)"

text \<open>The receive task on a byte stream, with the globals and the effects.\<close>

fun uart_rx_task ::
  "device \<Rightarrow> rx_state \<Rightarrow> u8 list \<Rightarrow> fault + (device \<times> rx_state) \<times> action list" where
  "uart_rx_task d r [] = Inr ((d, r), [])"
| "uart_rx_task d r (b # bs) =
     (case rx_byte r b of
        Inl f \<Rightarrow> Inl f
      | Inr (r1, ev) \<Rightarrow>
          (case rx_effect d ev of
             Inl f \<Rightarrow> Inl f
           | Inr (d1, a1) \<Rightarrow>
               (case uart_rx_task d1 r1 bs of
                  Inl f \<Rightarrow> Inl f
                | Inr (s2, a2) \<Rightarrow> Inr (s2, a1 @ a2))))"

subsection \<open>The trigger pulse\<close>

definition PULSE_DURATION_MS :: int where "PULSE_DURATION_MS = 500"

definition start_pulse :: "device \<Rightarrow> device \<times> action list" where
  "start_pulse d =
     (if g_pulse_active d then (d, [])
      else (d\<lparr>g_pulse_active := True\<rparr>,
            [Gpio_signal True, Pulse_timer_start (PULSE_DURATION_MS * 1000)]))"

text \<open>The timer callback that \<^verbatim>\<open>start_pulse\<close> schedules.\<close>

definition pulse_timer_cb :: "device \<Rightarrow> device \<times> action list" where
  "pulse_timer_cb d =
     (d\<lparr>g_pulse_active := False\<rparr>, [Gpio_signal False, Task_delay 10, Update_switch False])"

definition stop_pulse :: "device \<Rightarrow> device \<times> action list" where
  "stop_pulse d = (d\<lparr>g_pulse_active := False\<rparr>, [Gpio_signal False])"

subsection \<open>app_attribute_update_cb\<close>

datatype callback_type = PRE_UPDATE | POST_UPDATE | OTHER_CALLBACK

text \<open>
  The \<^verbatim>\<open>for (mode = 0; mode < 4; mode++)\<close> loop leaves at the first \<open>mode\<close> whose endpoint id
  matches.
\<close>

definition matching_mode :: "device \<Rightarrow> u16 \<Rightarrow> nat option" where
  "matching_mode d endpoint_id =
     List.find (\<lambda>mode. endpoint_id = g_mode_plugin_ids d mode) [0..<4]"

text \<open>
  \<open>is_onoff\<close> is the test \<^verbatim>\<open>cluster_id == OnOff::Id && attribute_id == OnOff::Attributes::OnOff::Id\<close>,
  \<open>new_state\<close> is \<^verbatim>\<open>val->val.b\<close> and \<open>now\<close> is what \<^verbatim>\<open>esp_timer_get_time()\<close> returns inside the
  callback.
\<close>

definition app_attribute_update_cb ::
  "device \<Rightarrow> callback_type \<Rightarrow> u16 \<Rightarrow> bool \<Rightarrow> bool \<Rightarrow> int \<Rightarrow> fault + device \<times> action list" where
  "app_attribute_update_cb d type endpoint_id is_onoff new_state now =
     (if type = PRE_UPDATE then
        (case
           (if is_onoff then
              (case
                 (if endpoint_id = g_switch_endpoint_id d \<and> new_state
                  then (case uart_send_frame CMD_TRIGGER [] of
                          Inl f \<Rightarrow> Inl f
                        | Inr bs \<Rightarrow> Inr [Uart_write bs])
                  else Inr [])
               of
                 Inl f \<Rightarrow> Inl f
               | Inr a0 \<Rightarrow>
                   (let (d1, a1) = (if new_state then start_pulse d else stop_pulse d)
                    in Inr (d1, a0 @ a1)))
            else Inr (d, []))
         of
           Inl f \<Rightarrow> Inl f
         | Inr (d1, a1) \<Rightarrow>
             (case (if is_onoff then matching_mode d1 endpoint_id else None) of
                None \<Rightarrow> Inr (d1, a1)
              | Some mode \<Rightarrow>
                  if new_state then
                    (if g_syncing_modes d1 then Inr (d1, a1)
                     else Inr (d1\<lparr>g_target_mode := int mode, g_last_tap_time := now\<rparr>, a1))
                  else Inr (d1, a1)))
      else Inr (d, []))"

subsection \<open>mode_sync_task\<close>

text \<open>C integer division truncates towards zero.\<close>

definition c_div :: "int \<Rightarrow> int \<Rightarrow> int" where
  "c_div a b = sgn a * sgn b * (\<bar>a\<bar> div \<bar>b\<bar>)"

text \<open>
  The report sequence that the source has twice, in the primary execution and in the
  safety cleanup: the loop that turns every mode except the current one off, each followed
  by a 10 ms delay; 50 ms; the current mode on. \<^verbatim>\<open>i != g_current_mode\<close> compares in \<^verbatim>\<open>int\<close>.
\<close>

definition off_loop :: "u8 \<Rightarrow> action list" where
  "off_loop cur =
     concat (map (\<lambda>i. if int i \<noteq> uint cur then [Report i False, Task_delay 10] else [])
               [0..<4])"

definition mode_reports :: "u8 \<Rightarrow> fault + action list" where
  "mode_reports cur =
     (if unat cur \<ge> 4 then Inl Mode_index_out_of_range
      else Inr (off_loop cur @ [Task_delay 50, Report (unat cur) True]))"

text \<open>
  PRIMARY EXECUTION. \<^verbatim>\<open>g_current_mode = g_target_mode\<close> converts the \<^verbatim>\<open>int\<close> to \<^verbatim>\<open>uint8_t\<close>;
  the log line before it reads \<^verbatim>\<open>mode_names[g_target_mode]\<close>.
\<close>

definition primary_execution :: "device \<Rightarrow> int \<Rightarrow> int \<Rightarrow> fault + device \<times> action list" where
  "primary_execution d now time_since_tap_ms =
     (if g_target_mode d \<ge> 0 \<and> g_target_mode d \<noteq> uint (g_current_mode d)
         \<and> time_since_tap_ms \<ge> 200
      then
        if g_target_mode d \<ge> 4 then Inl Mode_index_out_of_range
        else
          (let d1 = d\<lparr>g_current_mode := word_of_int (g_target_mode d), g_target_mode := -1\<rparr>
           in case uart_send_frame CMD_SET_MODE [g_current_mode d1] of
                Inl f \<Rightarrow> Inl f
              | Inr bs \<Rightarrow>
                  (case mode_reports (g_current_mode d1) of
                     Inl f \<Rightarrow> Inl f
                   | Inr reports \<Rightarrow>
                       Inr (d1\<lparr>g_syncing_modes := False, g_last_execution_time := now\<rparr>,
                            Uart_write bs # reports)))
      else Inr (d, []))"

text \<open>SAFETY CLEANUP.\<close>

definition safety_cleanup :: "device \<Rightarrow> int \<Rightarrow> int \<Rightarrow> fault + device \<times> action list" where
  "safety_cleanup d time_since_exec_ms time_since_tap_ms =
     (if time_since_exec_ms \<ge> 5000 \<and> time_since_tap_ms \<ge> 5000 \<and> \<not> cleanup_done d
      then
        (case mode_reports (g_current_mode d) of
           Inl f \<Rightarrow> Inl f
         | Inr reports \<Rightarrow> Inr (d\<lparr>g_syncing_modes := False, cleanup_done := True\<rparr>, reports))
      else Inr (d, []))"

text \<open>\<^verbatim>\<open>if (g_target_mode >= 0 && cleanup_done) cleanup_done = false;\<close>\<close>

definition cleanup_reset :: "device \<Rightarrow> device" where
  "cleanup_reset d =
     (if g_target_mode d \<ge> 0 \<and> cleanup_done d then d\<lparr>cleanup_done := False\<rparr> else d)"

text \<open>
  One iteration of the \<^verbatim>\<open>while (1)\<close> loop, \<open>now\<close> being what \<^verbatim>\<open>esp_timer_get_time()\<close> returns
  at its top. Both elapsed times are computed once, before the primary execution. The
  result has the globals, the effects of the primary execution and those of the safety
  cleanup; the iteration ends with \<^verbatim>\<open>vTaskDelay(pdMS_TO_TICKS(10))\<close>.
\<close>

definition mode_sync_iteration ::
  "device \<Rightarrow> int \<Rightarrow> fault + device \<times> action list \<times> action list" where
  "mode_sync_iteration d now =
     (let time_since_tap_ms = c_div (now - g_last_tap_time d) 1000;
          time_since_exec_ms = c_div (now - g_last_execution_time d) 1000
      in case primary_execution d now time_since_tap_ms of
           Inl f \<Rightarrow> Inl f
         | Inr (d1, executed) \<Rightarrow>
             (case safety_cleanup d1 time_since_exec_ms time_since_tap_ms of
                Inl f \<Rightarrow> Inl f
              | Inr (d2, reasserted) \<Rightarrow> Inr (cleanup_reset d2, executed, reasserted)))"

subsection \<open>Runs of the arbiter\<close>

text \<open>
  What happens to the arbiter, in the order it happens: the attribute callback for an
  On/Off \<^verbatim>\<open>PRE_UPDATE\<close> of an endpoint at a time, and an iteration of the task loop
  starting at a time (microseconds).
\<close>

datatype event = Attribute_update u16 bool int | Sync_iteration int

text \<open>
  What the task loop did: a primary execution or a safety cleanup, each with the time of
  its iteration and its effects. The effects of the callback itself (the trigger frame,
  the pulse) are not among them. A callback that the reporting subsystem makes while a
  report sequence runs finds \<^verbatim>\<open>g_syncing_modes\<close> set and records no tap, so a run has the
  callbacks between the iterations only.
\<close>

datatype observation = Executed int "action list" | Reasserted int "action list"

definition observations :: "int \<Rightarrow> action list \<Rightarrow> action list \<Rightarrow> observation list" where
  "observations now executed reasserted =
     (if executed = [] then [] else [Executed now executed])
     @ (if reasserted = [] then [] else [Reasserted now reasserted])"

fun arbiter_run :: "device \<Rightarrow> event list \<Rightarrow> fault + device \<times> observation list" where
  "arbiter_run d [] = Inr (d, [])"
| "arbiter_run d (Attribute_update endpoint_id new_state now # es) =
     (case app_attribute_update_cb d PRE_UPDATE endpoint_id True new_state now of
        Inl f \<Rightarrow> Inl f
      | Inr (d1, a) \<Rightarrow> arbiter_run d1 es)"
| "arbiter_run d (Sync_iteration now # es) =
     (case mode_sync_iteration d now of
        Inl f \<Rightarrow> Inl f
      | Inr (d1, executed, reasserted) \<Rightarrow>
          (case arbiter_run d1 es of
             Inl f \<Rightarrow> Inl f
           | Inr (d2, obs) \<Rightarrow> Inr (d2, observations now executed reasserted @ obs)))"

fun is_executed :: "observation \<Rightarrow> bool" where
  "is_executed (Executed t a) = True"
| "is_executed (Reasserted t a) = False"

text \<open>
  The globals after \<^verbatim>\<open>app_main\<close> has set the modes up; the endpoint ids are the ones the
  Matter stack assigned.
\<close>

definition boot_device :: "u16 \<Rightarrow> (nat \<Rightarrow> u16) \<Rightarrow> device" where
  "boot_device switch_id plugin_ids =
     \<lparr>g_switch_endpoint_id = switch_id, g_mode_plugin_ids = plugin_ids,
      g_pulse_active = False, g_target_mode = -1, g_last_tap_time = 0,
      g_last_execution_time = 0, g_syncing_modes = False, g_current_mode = 0,
      cleanup_done = False\<rparr>"

subsection \<open>Auxiliary notions for the proofs\<close>

text \<open>
  The relation between the variables of the receive state machine that holds between any
  two bytes: where the write index stands in each state, and that the bytes still to read
  fit the frame buffer.
\<close>

definition rx_inv :: "rx_state \<Rightarrow> bool" where
  "rx_inv r =
     ((state r = 0 \<and> buf_idx r = 0)
    \<or> (state r = 1 \<and> buf_idx r = 1)
    \<or> (state r = 2 \<and> 1 \<le> unat (frame_len r) \<and> unat (frame_len r) \<le> 60
         \<and> 1 \<le> unat (bytes_to_read r)
         \<and> unat (buf_idx r) + unat (bytes_to_read r) = 2 + unat (frame_len r))
    \<or> (state r = 3 \<and> 1 \<le> unat (frame_len r) \<and> unat (frame_len r) \<le> 60
         \<and> unat (buf_idx r) = 2 + unat (frame_len r)))"

text \<open>The bytes that \<open>uart_send_frame\<close> hands to the UART when the frame fits its buffer.\<close>

definition frame_bytes :: "u8 \<Rightarrow> u8 list \<Rightarrow> u8 list" where
  "frame_bytes c p =
     [FRAME_START, 1 + of_nat (length p), c] @ p @ [crc8 ((1 + of_nat (length p)) # c # p)]"

text \<open>
  The effects of a sequence of branches of the receive state machine, in order; the state
  machine does not read the globals and the handlers do not touch its variables.
\<close>

fun rx_effects :: "device \<Rightarrow> rx_event list \<Rightarrow> fault + device \<times> action list" where
  "rx_effects d [] = Inr (d, [])"
| "rx_effects d (e # es) =
     (case rx_effect d (Some e) of
        Inl f \<Rightarrow> Inl f
      | Inr (d1, a1) \<Rightarrow>
          (case rx_effects d1 es of
             Inl f \<Rightarrow> Inl f
           | Inr (d2, a2) \<Rightarrow> Inr (d2, a1 @ a2)))"

text \<open>The state number the receive state machine ends in, and the branches it took.\<close>

definition rx_outcome :: "rx_state \<Rightarrow> u8 list \<Rightarrow> (u8 \<times> rx_event list) option" where
  "rx_outcome r bs =
     (case uart_rx_bytes r bs of Inl f \<Rightarrow> None | Inr (r', evs) \<Rightarrow> Some (state r', evs))"

text \<open>The effects of the receive task on a byte stream, and the state number it ends in.\<close>

definition rx_task_outcome :: "device \<Rightarrow> rx_state \<Rightarrow> u8 list \<Rightarrow> (u8 \<times> action list) option" where
  "rx_task_outcome d r bs =
     (case uart_rx_task d r bs of Inl f \<Rightarrow> None | Inr ((d', r'), acts) \<Rightarrow> Some (state r', acts))"

text \<open>What the task loop did in a run.\<close>

definition observed :: "device \<Rightarrow> event list \<Rightarrow> observation list option" where
  "observed d es = (case arbiter_run d es of Inl f \<Rightarrow> None | Inr (d', obs) \<Rightarrow> Some obs)"

text \<open>The reports among the effects, in order: mode index and value.\<close>

fun reports_of :: "action list \<Rightarrow> (nat \<times> bool) list" where
  "reports_of [] = []"
| "reports_of (Report i v # as) = (i, v) # reports_of as"
| "reports_of (a # as) = reports_of as"

text \<open>
  \<open>n\<close> iterations of the task loop 10 ms apart, the period of the loop when an iteration
  only runs its final delay, the first starting at \<open>start\<close>.
\<close>

fun idle_iterations :: "int \<Rightarrow> nat \<Rightarrow> event list" where
  "idle_iterations start 0 = []"
| "idle_iterations start (Suc n) = Sync_iteration start # idle_iterations (start + 10000) n"

text \<open>
  For the examples: a frame buffer of zeros, and the endpoint ids 1 for the trigger and
  2, 3, 4, 5 for the four modes.
\<close>

definition zero_mem :: "nat \<Rightarrow> u8" where "zero_mem i = 0"

definition example_ids :: "nat \<Rightarrow> u16" where "example_ids i = of_nat (i + 2)"

definition example_device :: device where "example_device = boot_device 1 example_ids"

section \<open>Properties\<close>

subsection \<open>Bytes as numbers\<close>

lemma unat_inc_u8: "unat (x :: u8) < 255 \<Longrightarrow> unat (x + 1) = unat x + 1"
  by (simp add: unat_word_ariths)

lemma unat_dec_u8: "1 \<le> unat (x :: u8) \<Longrightarrow> unat (x - 1) = unat x - 1"
  by (metis unat_minus_one unat_eq_zero not_one_le_zero)

lemma u8_gt_60: "((60 :: u8) < x) = (60 < unat x)"
  by (simp add: word_less_nat_alt)

lemma u8_eq_0: "((x :: u8) = 0) = (unat x = 0)"
  by (simp add: unat_eq_zero)

lemma rx_byte_state0:
  assumes "state r = 0" "buf_idx r = 0"
  shows "\<exists>r' e. rx_byte r b = Inr (r', e) \<and> rx_inv r'"
  using assms by (simp add: rx_byte_def buf_store_def rx_inv_def)

lemma rx_byte_state1:
  assumes "state r = 1" "buf_idx r = 1"
  shows "\<exists>r' e. rx_byte r b = Inr (r', e) \<and> rx_inv r'"
  using assms by (auto simp add: rx_byte_def buf_store_def rx_inv_def Let_def u8_gt_60 u8_eq_0)

lemma rx_byte_state2:
  assumes "state r = 2" "1 \<le> unat (frame_len r)" "unat (frame_len r) \<le> 60"
     "1 \<le> unat (bytes_to_read r)" "unat (buf_idx r) + unat (bytes_to_read r) = 2 + unat (frame_len r)"
  shows "\<exists>r' e. rx_byte r b = Inr (r', e) \<and> rx_inv r'"
proof -
  have i: "unat (buf_idx r) < 64" using assms by linarith
  have i1: "unat (buf_idx r + 1) = unat (buf_idx r) + 1" using i by (simp add: unat_inc_u8)
  have d: "unat (bytes_to_read r - 1) = unat (bytes_to_read r) - 1" using assms by (simp add: unat_dec_u8)
  show ?thesis using assms i i1 d
    by (auto simp add: rx_byte_def buf_store_def rx_inv_def Let_def u8_eq_0)
qed

lemma rx_byte_state3:
  assumes "state r = 3" "1 \<le> unat (frame_len r)" "unat (frame_len r) \<le> 60"
     "unat (buf_idx r) = 2 + unat (frame_len r)"
  shows "\<exists>r' e. rx_byte r b = Inr (r', e) \<and> rx_inv r'"
proof -
  have i: "unat (buf_idx r) < 64" using assms by linarith
  have i1: "unat (buf_idx r + 1) = unat (buf_idx r) + 1" using i by (simp add: unat_inc_u8)
  show ?thesis using assms i i1
    by (auto simp add: rx_byte_def buf_store_def rx_inv_def Let_def)
qed

lemma rx_byte_inv: "rx_inv r \<Longrightarrow> \<exists>r' e. rx_byte r b = Inr (r', e) \<and> rx_inv r'"
  unfolding rx_inv_def [of r]
  using rx_byte_state0 rx_byte_state1 rx_byte_state2 rx_byte_state3 by blast

lemma rx_inv_idx: "rx_inv r \<Longrightarrow> unat (buf_idx r) < 63"
  by (auto simp: rx_inv_def)

lemma uart_rx_bytes_inv:
  "rx_inv r \<Longrightarrow> \<exists>r' evs. uart_rx_bytes r bs = Inr (r', evs) \<and> rx_inv r'"
proof (induction bs arbitrary: r)
  case Nil
  then show ?case by simp
next
  case (Cons b bs)
  from rx_byte_inv [OF Cons.prems] obtain r1 e where s: "rx_byte r b = Inr (r1, e)" and i: "rx_inv r1"
    by blast
  from Cons.IH [OF i] obtain r2 evs where "uart_rx_bytes r1 bs = Inr (r2, evs)" "rx_inv r2" by blast
  with s show ?case by simp
qed

lemma u8_eq_3: "((x :: u8) = 3) = (unat x = 3)"
  by (simp add: word_unat_eq_iff)

lemma uart_rx_bytes_append:
  "uart_rx_bytes r (xs @ ys) =
     (case uart_rx_bytes r xs of
        Inl f \<Rightarrow> Inl f
      | Inr (r1, e1) \<Rightarrow>
          (case uart_rx_bytes r1 ys of
             Inl f \<Rightarrow> Inl f
           | Inr (r2, e2) \<Rightarrow> Inr (r2, e1 @ e2)))"
  by (induction xs arbitrary: r) (auto split: sum.splits prod.splits)

lemma buf_slice_length [simp]: "length (buf_slice mem i n) = n"
  by (simp add: buf_slice_def)

lemma buf_slice_store_end: "buf_slice (mem(k := x)) 0 (Suc k) = buf_slice mem 0 k @ [x]"
  by (simp add: buf_slice_def)

lemma buf_slice_store_above: "i + n \<le> k \<Longrightarrow> buf_slice (mem(k := x)) i n = buf_slice mem i n"
  by (simp add: buf_slice_def)

lemma buf_slice_sub: "a + n \<le> m \<Longrightarrow> buf_slice mem a n = take n (drop a (buf_slice mem 0 m))"
  by (simp add: buf_slice_def drop_map take_map take_upt)

lemma rx_body_step:
  assumes "state r = 2" "unat (bytes_to_read r) = Suc n" "unat (buf_idx r) = k" "2 \<le> k" "k < 63"
  shows "\<exists>r'. rx_byte r x = Inr (r', None) \<and> state r' = (if n = 0 then 3 else 2)
           \<and> unat (bytes_to_read r') = n
           \<and> unat (buf_idx r') = Suc k \<and> frame_len r' = frame_len r
           \<and> cmd r' = (if k = 2 then x else cmd r)
           \<and> frame_buf r' = (frame_buf r)(k := x)"
proof -
  have i1: "unat (buf_idx r + 1) = k + 1" using assms by (simp add: unat_inc_u8)
  have d: "unat (bytes_to_read r - 1) = n" using assms by (simp add: unat_dec_u8)
  have c3: "(buf_idx r + 1 = 3) = (k = 2)"
    using i1 by (simp add: u8_eq_3)
  show ?thesis using assms i1 d c3
    by (simp add: rx_byte_def buf_store_def Let_def u8_eq_0)
qed

lemma rx_body:
  assumes "state r = 2" "unat (bytes_to_read r) = length xs" "xs \<noteq> []"
    "unat (buf_idx r) = k" "2 \<le> k" "k + length xs \<le> 63"
  shows "\<exists>r'. uart_rx_bytes r xs = Inr (r', []) \<and> state r' = 3
           \<and> unat (buf_idx r') = k + length xs \<and> frame_len r' = frame_len r
           \<and> cmd r' = (if k = 2 then hd xs else cmd r)
           \<and> buf_slice (frame_buf r') 0 (k + length xs) = buf_slice (frame_buf r) 0 k @ xs"
  using assms
proof (induction xs arbitrary: r k)
  case Nil
  then show ?case by simp
next
  case (Cons x xs)
  have k: "k < 63" using Cons.prems by simp
  from rx_body_step [OF Cons.prems(1) _ Cons.prems(4,5) k, of "length xs" x] Cons.prems(2)
  obtain r1 where s: "rx_byte r x = Inr (r1, None)"
    and st: "state r1 = (if length xs = 0 then 3 else 2)"
    and br: "unat (bytes_to_read r1) = length xs"
    and bi: "unat (buf_idx r1) = Suc k" and fl: "frame_len r1 = frame_len r"
    and cm: "cmd r1 = (if k = 2 then x else cmd r)"
    and fb: "frame_buf r1 = (frame_buf r)(k := x)"
    by auto
  have bounds: "Suc k + length xs \<le> 63" "2 \<le> Suc k" using Cons.prems by auto
  show ?case
  proof (cases "xs = []")
    case True
    then show ?thesis using s st br bi fl cm fb by (simp add: buf_slice_store_end)
  next
    case False
    then have ne: "xs \<noteq> []" and st2: "state r1 = 2" using st by auto
    from Cons.IH [OF st2 br ne bi bounds(2,1)]
    obtain r' where "uart_rx_bytes r1 xs = Inr (r', [])" "state r' = 3"
      "unat (buf_idx r') = Suc k + length xs" "frame_len r' = frame_len r1"
      "cmd r' = (if Suc k = 2 then hd xs else cmd r1)"
      "buf_slice (frame_buf r') 0 (Suc k + length xs) = buf_slice (frame_buf r1) 0 (Suc k) @ xs"
      by blast
    then show ?thesis using s fl cm fb Cons.prems(5) by (simp add: buf_slice_store_end)
  qed
qed

lemma uart_send_frame_eq:
  "uart_send_frame c p = (if length p \<le> 60 then Inr (frame_bytes c p) else Inl Frame_buf_overflow)"
  by (auto simp add: uart_send_frame_def frame_bytes_def Let_def)

lemma unat_len_byte: "length p \<le> 59 \<Longrightarrow> unat (1 + of_nat (length p) :: u8) = Suc (length p)"
  by (simp add: unat_word_ariths unat_of_nat)

lemma rx_framed:
  assumes "state r = 0" "buf_idx r = 0" "body \<noteq> []" "length body \<le> 60" "unat L = length body"
  shows "\<exists>r'. uart_rx_bytes r (FRAME_START # L # body @ [k]) =
               Inr (r', [if crc8 (L # body) = k then Frame_valid (hd body) (tl body)
                         else Crc_error (crc8 (L # body)) k])
           \<and> state r' = 0 \<and> buf_idx r' = 0"
proof -
  have L0: "L \<noteq> 0" using assms(3,5) by (simp add: u8_eq_0)
  have L60: "\<not> 60 < L" using assms(4,5) by (simp add: word_less_nat_alt)
  define r1 where "r1 = r\<lparr>frame_buf := (frame_buf r)(0 := FRAME_START), buf_idx := 1, state := 1\<rparr>"
  have s1: "rx_byte r FRAME_START = Inr (r1, None)"
    using assms(1,2) by (simp add: rx_byte_def buf_store_def r1_def)
  define r2 where "r2 = r1\<lparr>frame_buf := (frame_buf r1)(1 := L), buf_idx := 2, frame_len := L,
     bytes_to_read := L, state := 2\<rparr>"
  have s2: "rx_byte r1 L = Inr (r2, None)"
    using L0 L60 by (simp add: rx_byte_def buf_store_def r1_def r2_def Let_def)
  have b2: "state r2 = 2" "unat (bytes_to_read r2) = length body" "unat (buf_idx r2) = 2"
    using assms(5) by (simp_all add: r2_def)
  define n where "n = length body"
  have n: "1 \<le> n" "n \<le> 60" using assms(3,4) by (simp_all add: n_def Suc_leI)
  have "2 + length body \<le> 63" using assms(4) by simp
  from rx_body [OF b2(1,2) assms(3) b2(3) _ this]
  obtain r3 where s3: "uart_rx_bytes r2 body = Inr (r3, [])" and st3: "state r3 = 3"
    and bi3': "unat (buf_idx r3) = 2 + length body" and fl3': "frame_len r3 = frame_len r2"
    and cm3': "cmd r3 = (if (2::nat) = 2 then hd body else cmd r2)"
    and fb3: "buf_slice (frame_buf r3) 0 (2 + length body) = buf_slice (frame_buf r2) 0 2 @ body"
    by blast
  have bi3: "unat (buf_idx r3) = 2 + n" using bi3' by (simp add: n_def)
  have fl3: "frame_len r3 = L" using fl3' by (simp add: r2_def)
  have cm3: "cmd r3 = hd body" using cm3' by simp
  have hd2: "buf_slice (frame_buf r2) 0 2 = [FRAME_START, L]"
    by (simp add: buf_slice_def r2_def r1_def numeral_2_eq_2)
  have fb3': "buf_slice (frame_buf r3) 0 (2 + n) = FRAME_START # L # body"
    using fb3 hd2 by (simp add: n_def)
  let ?mem = "(frame_buf r3)(Suc (Suc n) := k)"
  have crc_reg: "buf_slice ?mem (Suc 0) (Suc n) = L # body"
  proof -
    have "buf_slice ?mem (Suc 0) (Suc n) = buf_slice (frame_buf r3) (Suc 0) (Suc n)"
      by (rule buf_slice_store_above) simp
    also have "\<dots> = take (Suc n) (drop (Suc 0) (buf_slice (frame_buf r3) 0 (2 + n)))"
      by (rule buf_slice_sub) simp
    finally show ?thesis unfolding fb3' by (simp add: n_def)
  qed
  have pl_reg: "buf_slice ?mem 3 (n - Suc 0) = tl body"
  proof -
    have "buf_slice ?mem 3 (n - Suc 0) = buf_slice (frame_buf r3) 3 (n - Suc 0)"
      by (rule buf_slice_store_above) (use n in simp)
    also have "\<dots> = take (n - Suc 0) (drop 3 (buf_slice (frame_buf r3) 0 (2 + n)))"
      by (rule buf_slice_sub) (use n in simp)
    finally show ?thesis unfolding fb3' by (simp add: n_def drop_Suc numeral_3_eq_3)
  qed
  have i4: "unat (buf_idx r3 + 1) = 3 + n"
    using bi3 n by (simp add: unat_inc_u8)
  have pl: "unat (L - 1) = n - Suc 0" using assms(5) n by (simp add: unat_dec_u8 n_def)
  let ?ev = "if crc8 (L # body) = k then Frame_valid (hd body) (tl body)
             else Crc_error (crc8 (L # body)) k"
  define r4 where "r4 = r3\<lparr>frame_buf := ?mem, state := 0, buf_idx := 0\<rparr>"
  have s4: "rx_byte r3 k = Inr (r4, Some ?ev)"
    using st3 bi3 i4 n fl3 cm3 pl crc_reg pl_reg
    by (simp add: rx_byte_def buf_store_def Let_def r4_def)
  have a: "uart_rx_bytes r3 [k] = Inr (r4, [?ev])"
    using s4 by simp
  define rest where "rest = body @ [k]"
  have b: "uart_rx_bytes r2 rest = Inr (r4, [?ev])"
    unfolding rest_def uart_rx_bytes_append s3 using a by simp
  have "uart_rx_bytes r (FRAME_START # L # rest) = Inr (r4, [?ev])"
    using s1 s2 b by simp
  then show ?thesis by (simp add: r4_def rest_def)
qed

lemma rx_frame:
  assumes "state r = 0" "buf_idx r = 0" "length p \<le> 59"
  shows "\<exists>r'. uart_rx_bytes r (frame_bytes c p) = Inr (r', [Frame_valid c p])
           \<and> state r' = 0 \<and> buf_idx r' = 0"
  using rx_framed [OF assms(1,2), of "c # p" "1 + of_nat (length p)" "crc8 ((1 + of_nat (length p)) # c # p)"]
    assms(3) unat_len_byte [OF assms(3)]
  by (simp add: frame_bytes_def)

subsection \<open>The receive state machine stays inside its frame buffer\<close>

text \<open>
  C10. For every input byte stream, however long and however corrupted, the receive state
  machine started at task start never stores outside \<^verbatim>\<open>frame_buf[64]\<close> (the run is never a
  fault), and between any two bytes the write index is below 63: the store of the next
  byte goes to an index of at most 62, so at most 63 bytes are stored before the index is
  reset. The stream is arbitrary, so this holds after each of its prefixes.
\<close>

theorem rx_index_in_bounds:
  "\<exists>r' evs. uart_rx_bytes (rx_init mem) bs = Inr (r', evs) \<and> unat (buf_idx r') < 63"
proof -
  have "rx_inv (rx_init mem)" by (simp add: rx_inv_def rx_init_def)
  from uart_rx_bytes_inv [OF this, of bs] show ?thesis by (blast dest: rx_inv_idx)
qed

subsection \<open>Encoding and decoding\<close>

text \<open>
  C1. For every command byte \<open>c\<close> and every payload \<open>p\<close> of at most 58 bytes,
  \<open>uart_send_frame\<close> produces a byte sequence, and the receive state machine, started at
  task start on that sequence, takes the valid-frame branch exactly once, with command \<open>c\<close>
  and payload \<open>p\<close>, takes no other branch, and is back in state 0.
\<close>

theorem round_trip:
  "length p \<le> 58 \<Longrightarrow>
   \<exists>bs r'. uart_send_frame c p = Inr bs
          \<and> uart_rx_bytes (rx_init mem) bs = Inr (r', [Frame_valid c p]) \<and> state r' = 0"
  using rx_frame [of "rx_init mem" p c]
  by (auto simp add: uart_send_frame_eq rx_init_def)

text \<open>C1 at the frame \<^verbatim>\<open>SET_MODE\<close> with payload \<open>[2]\<close>.\<close>

theorem round_trip_witness:
  "length [2 :: u8] \<le> 58 \<and>
   (\<exists>bs r'. uart_send_frame CMD_SET_MODE [2] = Inr bs
          \<and> uart_rx_bytes (rx_init (\<lambda>i. 0)) bs = Inr (r', [Frame_valid CMD_SET_MODE [2]])
          \<and> state r' = 0)"
  using round_trip [of "[2]" CMD_SET_MODE "\<lambda>i. 0"] by simp

text \<open>
  C6 fails as stated: \<open>uart_send_frame\<close> has no check of the payload size. For a payload
  of 59 zero bytes it does not fail but hands 63 bytes to the UART.
\<close>

theorem send_frame_59_bytes:
  "length (replicate 59 (0 :: u8)) > 58 \<and>
   uart_send_frame CMD_PING (replicate 59 0) = Inr ([0xA5, 60, 0x04] @ replicate 59 0 @ [28])"
  by code_simp

text \<open>
  C6, amended. For every payload of at most 60 bytes, so also for 59 and 60 bytes,
  \<open>uart_send_frame\<close> succeeds and produces the start marker, the length byte
  \<open>1 + payload_len\<close>, the command, the payload and the CRC over length, command and payload.
\<close>

theorem send_frame_no_size_check:
  "length p \<le> 60 \<Longrightarrow>
   uart_send_frame c p =
     Inr ([FRAME_START, 1 + of_nat (length p), c] @ p @ [crc8 ((1 + of_nat (length p)) # c # p)])"
  by (simp add: uart_send_frame_eq frame_bytes_def)

text \<open>C6, amended, at a payload of 60 bytes.\<close>

theorem send_frame_no_size_check_witness:
  "length (replicate 60 (7 :: u8)) \<le> 60 \<and>
   uart_send_frame CMD_HELLO (replicate 60 7) =
     Inr ([FRAME_START, 1 + of_nat (length (replicate 60 (7 :: u8))), CMD_HELLO] @ replicate 60 7
          @ [crc8 ((1 + of_nat (length (replicate 60 (7 :: u8)))) # CMD_HELLO # replicate 60 7)])"
  using send_frame_no_size_check [of "replicate 60 7" CMD_HELLO] by simp

subsection \<open>What the CRC detects\<close>

lemma top_bit: "((a :: u8) AND 0x80 \<noteq> 0) = bit a 7"
proof -
  have "(0x80 :: u8) = push_bit 7 1" by simp
  then show ?thesis by (simp only: bit_iff_and_push_bit_not_eq_0)
qed

lemma crc8_shift_alt: "crc8_shift a = push_bit 1 a XOR (if bit a 7 then CRC_POLY else 0)"
  by (simp add: crc8_shift_def top_bit)

lemma xor_cancel_u8: "((c :: u8) XOR x = c XOR y) = (x = y)"
proof
  assume "c XOR x = c XOR y"
  then have "c XOR (c XOR x) = c XOR (c XOR y)" by simp
  then show "x = y" by (simp only: xor.assoc [symmetric] xor_self_eq xor.left_neutral)
qed simp

lemma xor_cancel_right_u8: "((x :: u8) XOR c = y XOR c) = (x = y)"
  by (simp add: xor.commute [of _ c] xor_cancel_u8)

lemma push_bit_1_bit0: "\<not> bit (push_bit 1 (a :: u8)) 0"
  unfolding bit_push_bit_iff by simp

lemma crc8_shift_bit0: "bit (crc8_shift a) 0 = bit a 7"
proof -
  have "bit CRC_POLY 0" by (simp add: CRC_POLY_def)
  then show ?thesis
    unfolding crc8_shift_alt bit_xor_iff using push_bit_1_bit0 [of a] by simp
qed

lemma crc8_shift_inj: "crc8_shift a = crc8_shift b \<Longrightarrow> a = b"
proof -
  assume e: "crc8_shift a = crc8_shift b"
  then have t: "bit a 7 = bit b 7" by (metis crc8_shift_bit0)
  with e have p: "push_bit 1 a = push_bit 1 b"
    unfolding crc8_shift_alt by (simp only: xor_cancel_right_u8)
  show "a = b"
  proof (rule bit_word_eqI)
    fix n assume "n < LENGTH(8)"
    then have n: "n < 8" by simp
    show "bit a n = bit b n"
    proof (cases "n = 7")
      case True then show ?thesis using t by simp
    next
      case False
      then have "Suc n < 8" using n by simp
      moreover from p have "bit (push_bit 1 a) (Suc n) = bit (push_bit 1 b) (Suc n)" by simp
      ultimately show ?thesis unfolding bit_push_bit_iff by simp
    qed
  qed
qed

lemma crc8_bits_inj: "crc8_bits n a = crc8_bits n b \<Longrightarrow> a = b"
  by (induction n arbitrary: a b) (auto dest: crc8_shift_inj)

lemma crc8_loop_inj: "crc8_loop a xs = crc8_loop b xs \<Longrightarrow> a = b"
proof (induction xs arbitrary: a b)
  case Nil
  then show ?case by simp
next
  case (Cons x xs)
  then have "crc8_bits 8 (a XOR x) = crc8_bits 8 (b XOR x)" by simp
  then have "a XOR x = b XOR x" by (rule crc8_bits_inj)
  then show ?case by (simp only: xor_cancel_right_u8)
qed

lemma crc8_loop_append: "crc8_loop a (xs @ ys) = crc8_loop (crc8_loop a xs) ys"
  by (induction xs arbitrary: a) auto

lemma crc8_byte_changed:
  assumes "i < length xs" "x \<noteq> xs ! i"
  shows "crc8 (xs[i := x]) \<noteq> crc8 xs"
proof -
  have xs: "xs = take i xs @ (xs ! i) # drop (Suc i) xs"
    using assms(1) by (simp add: id_take_nth_drop)
  have xs': "xs[i := x] = take i xs @ x # drop (Suc i) xs"
    using assms(1) by (simp add: upd_conv_take_nth_drop)
  let ?c = "crc8_loop 0 (take i xs)"
  have "crc8 (xs[i := x]) = crc8_loop (crc8_bits 8 (?c XOR x)) (drop (Suc i) xs)"
    by (simp add: crc8_def xs' crc8_loop_append)
  moreover have "crc8 xs = crc8_loop (crc8_bits 8 (?c XOR xs ! i)) (drop (Suc i) xs)"
    by (subst xs) (simp add: crc8_def crc8_loop_append)
  moreover have "?c XOR x \<noteq> ?c XOR xs ! i" using assms(2) by (simp only: xor_cancel_u8) simp
  ultimately show ?thesis by (auto dest!: crc8_loop_inj crc8_bits_inj)
qed

lemma flip_changes: "j < 8 \<Longrightarrow> (x :: u8) XOR push_bit j 1 \<noteq> x"
proof
  assume j: "j < 8" and "x XOR push_bit j 1 = x"
  then have "bit (x XOR push_bit j 1) j = bit x j" by simp
  then show False using j by (simp add: bit_simps)
qed

subsection \<open>Corrupted frames\<close>

lemma rx_effect_None [simp]: "rx_effect d None = Inr (d, [])"
  by (simp add: rx_effect_def)

lemma uart_rx_task_events:
  "uart_rx_bytes r bs = Inr (r', evs) \<Longrightarrow>
   uart_rx_task d r bs =
     (case rx_effects d evs of Inl f \<Rightarrow> Inl f | Inr (d', acts) \<Rightarrow> Inr ((d', r'), acts))"
proof (induction bs arbitrary: r d evs)
  case Nil
  then show ?case by simp
next
  case (Cons b bs)
  from Cons.prems obtain r1 ev evs1 where
    s: "rx_byte r b = Inr (r1, ev)" and t: "uart_rx_bytes r1 bs = Inr (r', evs1)"
    and e: "evs = (case ev of None \<Rightarrow> [] | Some e \<Rightarrow> [e]) @ evs1"
    by (auto split: sum.splits prod.splits)
  show ?case
  proof (cases ev)
    case None
    then show ?thesis using s e Cons.IH [OF t, of d] by (simp split: sum.splits)
  next
    case (Some x)
    show ?thesis
    proof (cases "rx_effect d (Some x)")
      case (Inl f)
      then show ?thesis using s e Some by simp
    next
      case (Inr da)
      obtain d1 a1 where da: "da = (d1, a1)" by (cases da)
      show ?thesis using s e Some Inr da Cons.IH [OF t, of d1]
        by (simp split: sum.splits prod.splits)
    qed
  qed
qed

text \<open>
  C7 fails as stated when the flipped bit is in the length byte or in the start marker.
  The \<^verbatim>\<open>PING\<close> frame with its length byte \<open>0x01\<close> turned into \<open>0x03\<close> leaves the receive
  task in state 2 (two body bytes and the CRC still to come), not in state 0. The frame
  with command \<open>0x10\<close> whose payload is itself a \<^verbatim>\<open>PING\<close> frame, its start marker turned into
  \<open>0xA4\<close>, makes the receive task dispatch that \<^verbatim>\<open>PING\<close> and send the ACK response.
\<close>

theorem bit_flip_not_discarded:
  "uart_send_frame CMD_PING [] = Inr [0xA5, 0x01, 0x04, 0x30]
   \<and> [0xA5, 0x01, 0x04, 0x30 :: u8][1 := 0x01 XOR push_bit 1 1] = [0xA5, 0x03, 0x04, 0x30]
   \<and> rx_task_outcome example_device (rx_init zero_mem) [0xA5, 0x03, 0x04, 0x30] = Some (2, [])
   \<and> uart_send_frame 0x10 [0xA5, 0x01, 0x04, 0x30] =
       Inr [0xA5, 0x05, 0x10, 0xA5, 0x01, 0x04, 0x30, 0x52]
   \<and> [0xA5, 0x05, 0x10, 0xA5, 0x01, 0x04, 0x30, 0x52 :: u8][0 := 0xA5 XOR push_bit 0 1] =
       [0xA4, 0x05, 0x10, 0xA5, 0x01, 0x04, 0x30, 0x52]
   \<and> rx_task_outcome example_device (rx_init zero_mem)
         [0xA4, 0x05, 0x10, 0xA5, 0x01, 0x04, 0x30, 0x52] =
       Some (0, [Uart_write [0xA5, 0x01, 0x80, 0x8E], Led_blink 2 100 100])"
  by code_simp

text \<open>
  C7, amended. For every frame that \<open>uart_send_frame\<close> produces for a payload of at most 59
  bytes, flipping any single bit of the command byte, of a payload byte or of the CRC byte
  (index 2 onwards) makes the receive task, started at task start, take the CRC error
  branch: it dispatches nothing and sends nothing (the only effect is \<^verbatim>\<open>led_error\<close>),
  the globals are unchanged, and the state machine is back in state 0.
\<close>

theorem bit_flip_discarded:
  assumes "uart_send_frame c p = Inr bs" "length p \<le> 59"
    and "2 \<le> i" "i < length bs" "j < 8"
  shows "\<exists>r' calc_crc received_crc.
           uart_rx_bytes (rx_init mem) (bs[i := bs ! i XOR push_bit j 1]) =
             Inr (r', [Crc_error calc_crc received_crc])
         \<and> uart_rx_task d (rx_init mem) (bs[i := bs ! i XOR push_bit j 1]) =
             Inr ((d, r'), [Led_blink 5 50 50])
         \<and> state r' = 0"
proof -
  define L :: u8 where "L = 1 + of_nat (length p)"
  define body where "body = c # p"
  define k where "k = crc8 (L # body)"
  have bs: "bs = FRAME_START # L # body @ [k]"
    using assms(1,2) by (simp add: uart_send_frame_eq frame_bytes_def L_def body_def k_def)
  have uL: "unat L = length body" using assms(2) by (simp add: L_def body_def unat_len_byte)
  have nb: "body \<noteq> []" "length body \<le> 60" using assms(2) by (simp_all add: body_def)
  obtain i' where i: "i = Suc (Suc i')" using assms(3) by (metis Suc_le_D numeral_2_eq_2 Suc_le_mono)
  have i': "i' \<le> length body" using assms(4) by (simp add: bs i)
  have st: "state (rx_init mem) = 0" "buf_idx (rx_init mem) = 0" by (simp_all add: rx_init_def)
  have "\<exists>body' k'. bs[i := bs ! i XOR push_bit j 1] = FRAME_START # L # body' @ [k']
          \<and> length body' = length body \<and> crc8 (L # body') \<noteq> k'"
  proof (cases "i' < length body")
    case True
    let ?b = "body[i' := body ! i' XOR push_bit j 1]"
    have "bs[i := bs ! i XOR push_bit j 1] = FRAME_START # L # ?b @ [k]"
      using True by (simp add: bs i list_update_append nth_append)
    moreover have "crc8 (L # ?b) \<noteq> k"
      using crc8_byte_changed [of "Suc i'" "L # body" "body ! i' XOR push_bit j 1"] True
        flip_changes [OF assms(5), of "body ! i'"]
      by (simp add: k_def)
    ultimately show ?thesis by (intro exI [of _ ?b] exI [of _ k]) simp
  next
    case False
    then have e: "i' = length body" using i' by simp
    have "bs[i := bs ! i XOR push_bit j 1] = FRAME_START # L # body @ [k XOR push_bit j 1]"
      using e by (simp add: bs i list_update_append nth_append)
    moreover have "crc8 (L # body) \<noteq> k XOR push_bit j 1"
      using flip_changes [OF assms(5), of k] by (simp add: k_def)
    ultimately show ?thesis by (intro exI [of _ body] exI [of _ "k XOR push_bit j 1"]) simp
  qed
  then obtain body' k' where
    f: "bs[i := bs ! i XOR push_bit j 1] = FRAME_START # L # body' @ [k']"
    and l: "length body' = length body" and ne: "crc8 (L # body') \<noteq> k'"
    by blast
  have "body' \<noteq> []" "length body' \<le> 60" "unat L = length body'"
    using nb l uL by auto
  from rx_framed [OF st this, of k'] ne
  obtain r' where r: "uart_rx_bytes (rx_init mem) (FRAME_START # L # body' @ [k']) =
      Inr (r', [Crc_error (crc8 (L # body')) k'])" and s0: "state r' = 0"
    by auto
  have "uart_rx_task d (rx_init mem) (FRAME_START # L # body' @ [k']) = Inr ((d, r'), [Led_blink 5 50 50])"
    unfolding uart_rx_task_events [OF r] by (simp add: rx_effect_def led_error_def)
  then show ?thesis using r s0 unfolding f by blast
qed

text \<open>C7, amended, at the \<^verbatim>\<open>SET_MODE\<close> frame with payload \<open>[2]\<close>, lowest bit of the payload byte.\<close>

theorem bit_flip_discarded_witness:
  "uart_send_frame CMD_SET_MODE [2] = Inr [0xA5, 0x02, 0x02, 0x02, 0x37]
   \<and> length [2 :: u8] \<le> 59 \<and> (2 :: nat) \<le> 3 \<and> 3 < length [0xA5, 0x02, 0x02, 0x02, 0x37 :: u8]
   \<and> (0 :: nat) < 8
   \<and> (\<exists>r' calc_crc received_crc.
           uart_rx_bytes (rx_init zero_mem)
             ([0xA5, 0x02, 0x02, 0x02, 0x37][3 := [0xA5, 0x02, 0x02, 0x02, 0x37] ! 3 XOR push_bit 0 1]) =
             Inr (r', [Crc_error calc_crc received_crc])
         \<and> uart_rx_task example_device (rx_init zero_mem)
             ([0xA5, 0x02, 0x02, 0x02, 0x37][3 := [0xA5, 0x02, 0x02, 0x02, 0x37] ! 3 XOR push_bit 0 1]) =
             Inr ((example_device, r'), [Led_blink 5 50 50])
         \<and> state r' = 0)"
proof -
  have h: "uart_send_frame CMD_SET_MODE [2] = Inr [0xA5, 0x02, 0x02, 0x02, 0x37]"
    "length [2 :: u8] \<le> 59" "(2 :: nat) \<le> 3" "3 < length [0xA5, 0x02, 0x02, 0x02, 0x37 :: u8]"
    "(0 :: nat) < 8"
    by code_simp+
  from bit_flip_discarded [OF h, of zero_mem example_device] h show ?thesis by blast
qed

subsection \<open>Resynchronisation\<close>

text \<open>
  C8 fails as stated: after the truncated frame \<open>0xA5 0x3C\<close> (start marker and length 60)
  the receive state machine takes the whole valid \<^verbatim>\<open>PING\<close> frame as body bytes: nothing is
  decoded, and it stays in state 2.
\<close>

theorem truncated_prefix_swallows_frame:
  "uart_send_frame CMD_PING [] = Inr [0xA5, 0x01, 0x04, 0x30]
   \<and> rx_outcome (rx_init zero_mem) ([0xA5, 0x3C] @ [0xA5, 0x01, 0x04, 0x30]) = Some (2, [])"
  by code_simp

text \<open>Garbage without the start marker leaves the receive state machine as it was.\<close>

lemma garbage_without_marker:
  "FRAME_START \<notin> set pre \<Longrightarrow> uart_rx_bytes (rx_init mem) pre = Inr (rx_init mem, [])"
  by (induction pre) (auto simp add: rx_byte_def rx_init_def)

text \<open>
  C8, amended. For every prefix after which the receive state machine is in state 0 (any
  garbage without the byte \<open>0xA5\<close> is one, a start marker followed by a rejected length
  another), followed by a frame that \<open>uart_send_frame\<close> produces for a payload of at most
  59 bytes: the valid-frame branch is taken for that frame exactly once, right after
  whatever the prefix made the state machine do, no store leaves the buffer, and the
  state machine is back in state 0.
\<close>

theorem resync_from_wait_start:
  assumes "rx_outcome (rx_init mem) pre = Some (0, evs)" "length p \<le> 59"
  shows "\<exists>bs. uart_send_frame c p = Inr bs
           \<and> rx_outcome (rx_init mem) (pre @ bs) = Some (0, evs @ [Frame_valid c p])"
proof -
  from assms(1) obtain r where r: "uart_rx_bytes (rx_init mem) pre = Inr (r, evs)" and s: "state r = 0"
    by (auto simp add: rx_outcome_def split: sum.splits)
  have "rx_inv (rx_init mem)" by (simp add: rx_inv_def rx_init_def)
  from uart_rx_bytes_inv [OF this, of pre] r have "rx_inv r" by simp
  with s have b: "buf_idx r = 0" by (simp add: rx_inv_def)
  from rx_frame [OF s b assms(2), of c] obtain r' where
    "uart_rx_bytes r (frame_bytes c p) = Inr (r', [Frame_valid c p])" "state r' = 0"
    by blast
  then have "rx_outcome (rx_init mem) (pre @ frame_bytes c p) = Some (0, evs @ [Frame_valid c p])"
    using r by (simp add: rx_outcome_def uart_rx_bytes_append)
  then show ?thesis using assms(2) by (simp add: uart_send_frame_eq)
qed

text \<open>C8, amended, at the prefix \<open>0x00 0xA5 0x00 0x17\<close> and the \<^verbatim>\<open>PING\<close> frame.\<close>

theorem resync_from_wait_start_witness:
  "rx_outcome (rx_init zero_mem) [0x00, 0xA5, 0x00, 0x17] = Some (0, [Invalid_length 0])
   \<and> length ([] :: u8 list) \<le> 59
   \<and> (\<exists>bs. uart_send_frame CMD_PING [] = Inr bs
           \<and> rx_outcome (rx_init zero_mem) ([0x00, 0xA5, 0x00, 0x17] @ bs) =
               Some (0, [Invalid_length 0] @ [Frame_valid CMD_PING []]))"
proof -
  have h: "rx_outcome (rx_init zero_mem) [0x00, 0xA5, 0x00, 0x17] = Some (0, [Invalid_length 0])"
    "length ([] :: u8 list) \<le> 59"
    by code_simp+
  from resync_from_wait_start [OF h, of CMD_PING] h show ?thesis by blast
qed

subsection \<open>Command handlers\<close>

lemma crc8_ack: "crc8 [1, 0x80] = 0x8E"
  by code_simp

lemma crc8_err: "crc8 [1, 0x81] = 0xBF"
  by code_simp

lemma crc8_busy: "crc8 [1, 0x82] = 0xEC"
  by code_simp

lemma crc8_trigger: "crc8 [1, 0x03] = 0xA7"
  by code_simp

lemma send_ack: "uart_send_response RSP_ACK [] = Inr [0xA5, 0x01, 0x80, 0x8E]"
  by (simp add: uart_send_response_def uart_send_frame_eq frame_bytes_def RSP_ACK_def FRAME_START_def crc8_ack)

lemma send_err: "uart_send_response RSP_ERR [] = Inr [0xA5, 0x01, 0x81, 0xBF]"
  by (simp add: uart_send_response_def uart_send_frame_eq frame_bytes_def RSP_ERR_def FRAME_START_def crc8_err)

lemma send_busy: "uart_send_response RSP_BUSY [] = Inr [0xA5, 0x01, 0x82, 0xEC]"
  by (simp add: uart_send_response_def uart_send_frame_eq frame_bytes_def RSP_BUSY_def FRAME_START_def crc8_busy)

text \<open>
  C4 fails as stated: the handler only rejects an empty payload (\<^verbatim>\<open>len < 1\<close>,
  \<^verbatim>\<open>"SET_MODE: missing payload"\<close>). A payload of two bytes whose first byte is 2 is accepted:
  \<^verbatim>\<open>g_current_mode\<close> becomes 2 and the response is ACK.
\<close>

theorem set_mode_two_bytes:
  "length [2, 0xFF :: u8] \<noteq> 1 \<and>
   handle_cmd_set_mode example_device [2, 0xFF] =
     Inr (example_device\<lparr>g_current_mode := 2\<rparr>,
          [Uart_write [0xA5, 0x01, 0x80, 0x8E], Led_blink 3 200 200])"
  by (simp add: handle_cmd_set_mode_def send_ack)

text \<open>
  C4, amended. The \<^verbatim>\<open>SET_MODE\<close> handler accepts a payload if and only if it has at least one
  byte and its first byte is in \<open>{0,1,2,3}\<close>; bytes after the first are ignored. On an empty
  payload or a first byte above 3 it responds ERR and leaves \<^verbatim>\<open>g_current_mode\<close> and every
  other global unchanged; otherwise it sets \<^verbatim>\<open>g_current_mode\<close> to the first payload byte and
  responds ACK, then blinks the LED once more than the mode.
\<close>

theorem set_mode_validation:
  "handle_cmd_set_mode d payload =
     (if payload \<noteq> [] \<and> hd payload \<le> 3
      then Inr (d\<lparr>g_current_mode := hd payload\<rparr>,
                [Uart_write [0xA5, 0x01, 0x80, 0x8E], Led_blink (uint (hd payload) + 1) 200 200])
      else Inr (d, [Uart_write [0xA5, 0x01, 0x81, 0xBF], Led_blink 5 50 50]))"
  by (cases payload) (auto simp add: handle_cmd_set_mode_def send_ack send_err led_error_def)

text \<open>
  C5 fails as stated in its second half: with no pulse active the handler responds ACK and
  blinks the LED, and that is all. No action is begun and \<^verbatim>\<open>g_pulse_active\<close> stays clear,
  so that a second \<^verbatim>\<open>TRIGGER\<close> frame right after the first is answered ACK again.
\<close>

theorem trigger_ack_starts_nothing:
  "\<not> g_pulse_active example_device
   \<and> handle_cmd_trigger example_device [] =
       Inr (example_device, [Uart_write [0xA5, 0x01, 0x80, 0x8E], Led_blink 1 500 0])
   \<and> uart_send_frame CMD_TRIGGER [] = Inr [0xA5, 0x01, 0x03, 0xA7]
   \<and> rx_task_outcome example_device (rx_init zero_mem)
         ([0xA5, 0x01, 0x03, 0xA7] @ [0xA5, 0x01, 0x03, 0xA7]) =
       Some (0, [Uart_write [0xA5, 0x01, 0x80, 0x8E], Led_blink 1 500 0,
                 Uart_write [0xA5, 0x01, 0x80, 0x8E], Led_blink 1 500 0])"
proof -
  have "\<not> g_pulse_active example_device"
    by (simp add: example_device_def boot_device_def)
  moreover from this have "handle_cmd_trigger example_device [] =
       Inr (example_device, [Uart_write [0xA5, 0x01, 0x80, 0x8E], Led_blink 1 500 0])"
    by (simp add: handle_cmd_trigger_def send_ack led_command_sent_def)
  moreover have "uart_send_frame CMD_TRIGGER [] = Inr [0xA5, 0x01, 0x03, 0xA7]"
    by code_simp
  moreover have "rx_task_outcome example_device (rx_init zero_mem)
         ([0xA5, 0x01, 0x03, 0xA7] @ [0xA5, 0x01, 0x03, 0xA7]) =
       Some (0, [Uart_write [0xA5, 0x01, 0x80, 0x8E], Led_blink 1 500 0,
                 Uart_write [0xA5, 0x01, 0x80, 0x8E], Led_blink 1 500 0])"
    by code_simp
  ultimately show ?thesis by blast
qed

text \<open>
  C5, amended. When a \<^verbatim>\<open>TRIGGER\<close> command is dispatched while \<^verbatim>\<open>g_pulse_active\<close> is set, the
  handler responds BUSY and does nothing else: the pulse in progress is neither restarted
  nor extended. When it is clear, the handler responds ACK and then only blinks the LED
  once: it begins no action and leaves the flag and every other global unchanged.
\<close>

theorem trigger_busy_or_ack:
  "handle_cmd_trigger d payload =
     (if g_pulse_active d then Inr (d, [Uart_write [0xA5, 0x01, 0x82, 0xEC]])
      else Inr (d, [Uart_write [0xA5, 0x01, 0x80, 0x8E], Led_blink 1 500 0]))"
  by (simp add: handle_cmd_trigger_def send_ack send_busy led_command_sent_def)

subsection \<open>The mode arbiter\<close>

lemma upt_4: "[0..<4] = [0, 1, 2, 3]"
  by (simp add: upt_rec)

lemma c_div_ge_200: "(200 \<le> c_div x 1000) = (200000 \<le> x)"
  by (auto simp add: c_div_def sgn_if) 

lemma c_div_ge_5000: "(5000 \<le> c_div x 1000) = (5000000 \<le> x)"
  by (auto simp add: c_div_def sgn_if)

lemma send_set_mode_ok: "\<exists>bs. uart_send_frame CMD_SET_MODE [m] = Inr bs"
  by (simp add: uart_send_frame_eq)

lemma mode_reports_0:
  "mode_reports 0 = Inr [Report 1 False, Task_delay 10, Report 2 False, Task_delay 10,
     Report 3 False, Task_delay 10, Task_delay 50, Report 0 True]"
  by (simp add: mode_reports_def off_loop_def upt_4)

lemma mode_reports_1:
  "mode_reports 1 = Inr [Report 0 False, Task_delay 10, Report 2 False, Task_delay 10,
     Report 3 False, Task_delay 10, Task_delay 50, Report 1 True]"
  by (simp add: mode_reports_def off_loop_def upt_4)

lemma mode_reports_2:
  "mode_reports 2 = Inr [Report 0 False, Task_delay 10, Report 1 False, Task_delay 10,
     Report 3 False, Task_delay 10, Task_delay 50, Report 2 True]"
  by (simp add: mode_reports_def off_loop_def upt_4)

lemma mode_reports_3:
  "mode_reports 3 = Inr [Report 0 False, Task_delay 10, Report 1 False, Task_delay 10,
     Report 2 False, Task_delay 10, Task_delay 50, Report 3 True]"
  by (simp add: mode_reports_def off_loop_def upt_4)

lemma mode_reports_of:
  assumes "0 \<le> t" "t \<le> 3"
  shows "\<exists>acts. mode_reports (word_of_int t) = Inr acts
         \<and> reports_of acts = map (\<lambda>i. (i, False)) (filter (\<lambda>i. i \<noteq> nat t) [0..<4]) @ [(nat t, True)]"
proof -
  consider "t = 0" | "t = 1" | "t = 2" | "t = 3" using assms by arith
  then show ?thesis
  proof cases
    case 1 then show ?thesis by (simp add: mode_reports_0 upt_4)
  next
    case 2 then show ?thesis by (simp add: mode_reports_1 upt_4)
  next
    case 3 then show ?thesis by (simp add: mode_reports_2 upt_4)
  next
    case 4 then show ?thesis by (simp add: mode_reports_3 upt_4)
  qed
qed

lemma primary_idle:
  "g_target_mode d < 0 \<or> g_target_mode d = uint (g_current_mode d) \<or> x < 200
   \<Longrightarrow> primary_execution d now x = Inr (d, [])"
  by (auto simp add: primary_execution_def)

lemma cleanup_idle:
  "e < 5000 \<or> x < 5000 \<or> cleanup_done d \<Longrightarrow> safety_cleanup d e x = Inr (d, [])"
  by (auto simp add: safety_cleanup_def)

lemma iteration_idle:
  assumes "now - g_last_tap_time d < 200000"
  shows "mode_sync_iteration d now = Inr (cleanup_reset d, [], [])"
proof -
  have a: "c_div (now - g_last_tap_time d) 1000 < 200"
    using assms c_div_ge_200 [of "now - g_last_tap_time d"] by simp
  then have b: "c_div (now - g_last_tap_time d) 1000 < 5000" by simp
  show ?thesis
    using a b by (simp add: mode_sync_iteration_def Let_def primary_idle cleanup_idle)
qed

lemma cleanup_reset_fields [simp]:
  "g_target_mode (cleanup_reset d) = g_target_mode d"
  "g_current_mode (cleanup_reset d) = g_current_mode d"
  "g_last_tap_time (cleanup_reset d) = g_last_tap_time d"
  "g_last_execution_time (cleanup_reset d) = g_last_execution_time d"
  "g_syncing_modes (cleanup_reset d) = g_syncing_modes d"
  "g_mode_plugin_ids (cleanup_reset d) = g_mode_plugin_ids d"
  "g_switch_endpoint_id (cleanup_reset d) = g_switch_endpoint_id d"
  "g_pulse_active (cleanup_reset d) = g_pulse_active d"
  by (simp_all add: cleanup_reset_def)

lemma run_idle:
  assumes "\<forall>t\<in>set ts. t - g_last_tap_time d < 200000"
  shows "\<exists>d'. arbiter_run d (map Sync_iteration ts @ es) = arbiter_run d' es
         \<and> g_target_mode d' = g_target_mode d \<and> g_current_mode d' = g_current_mode d
         \<and> g_last_tap_time d' = g_last_tap_time d \<and> g_syncing_modes d' = g_syncing_modes d
         \<and> g_mode_plugin_ids d' = g_mode_plugin_ids d"
  using assms
proof (induction ts arbitrary: d)
  case Nil
  show ?case by (rule exI [of _ d]) simp
next
  case (Cons t ts)
  have it: "mode_sync_iteration d t = Inr (cleanup_reset d, [], [])"
    using Cons.prems by (simp add: iteration_idle)
  have "\<forall>t\<in>set ts. t - g_last_tap_time (cleanup_reset d) < 200000"
    using Cons.prems by simp
  from Cons.IH [OF this] obtain d' where
    "arbiter_run (cleanup_reset d) (map Sync_iteration ts @ es) = arbiter_run d' es"
    "g_target_mode d' = g_target_mode d" "g_current_mode d' = g_current_mode d"
    "g_last_tap_time d' = g_last_tap_time d"  "g_syncing_modes d' = g_syncing_modes d"
    "g_mode_plugin_ids d' = g_mode_plugin_ids d"
    by auto
  then show ?case using it 
    by (intro exI [of _ d']) (simp add: observations_def split: sum.splits)
qed

lemma trigger_frame_ok: "uart_send_frame CMD_TRIGGER [] = Inr [0xA5, 0x01, 0x03, 0xA7]"
  by (simp add: uart_send_frame_eq frame_bytes_def CMD_TRIGGER_def FRAME_START_def crc8_trigger)

lemma matching_mode_first:
  assumes "m < 4" "\<forall>j<m. g_mode_plugin_ids d j \<noteq> g_mode_plugin_ids d m"
  shows "matching_mode d (g_mode_plugin_ids d m) = Some m"
proof -
  consider "m = 0" | "m = 1" | "m = 2" | "m = 3" using assms(1) by arith
  then show ?thesis
  proof cases
    case 1 then show ?thesis by (simp add: matching_mode_def upt_4)
  next
    case 2 then show ?thesis using assms(2) by (simp add: matching_mode_def upt_4)
  next
    case 3
    then have "g_mode_plugin_ids d 0 \<noteq> g_mode_plugin_ids d 2" "g_mode_plugin_ids d 1 \<noteq> g_mode_plugin_ids d 2"
      using assms(2) by simp_all
    then show ?thesis using 3 by (simp add: matching_mode_def upt_4)
  next
    case 4
    then have "g_mode_plugin_ids d 0 \<noteq> g_mode_plugin_ids d 3" "g_mode_plugin_ids d 1 \<noteq> g_mode_plugin_ids d 3"
       "g_mode_plugin_ids d 2 \<noteq> g_mode_plugin_ids d 3"
      using assms(2) by simp_all
    then show ?thesis using 4 by (simp add: matching_mode_def upt_4)
  qed
qed

lemma start_pulse_fields [simp]:
  "g_target_mode (fst (start_pulse d)) = g_target_mode d"
  "g_current_mode (fst (start_pulse d)) = g_current_mode d"
  "g_last_tap_time (fst (start_pulse d)) = g_last_tap_time d"
  "g_last_execution_time (fst (start_pulse d)) = g_last_execution_time d"
  "g_syncing_modes (fst (start_pulse d)) = g_syncing_modes d"
  "g_mode_plugin_ids (fst (start_pulse d)) = g_mode_plugin_ids d"
  "cleanup_done (fst (start_pulse d)) = cleanup_done d"
  by (simp_all add: start_pulse_def)

lemma tap_recorded:
  assumes "m < 4" "\<forall>j<m. g_mode_plugin_ids d j \<noteq> g_mode_plugin_ids d m" "\<not> g_syncing_modes d"
  shows "\<exists>a. app_attribute_update_cb d PRE_UPDATE (g_mode_plugin_ids d m) True True t =
           Inr ((fst (start_pulse d))\<lparr>g_target_mode := int m, g_last_tap_time := t\<rparr>, a)"
proof -
  have mm: "matching_mode (fst (start_pulse d)) (g_mode_plugin_ids d m) = Some m"
    using matching_mode_first [of m "fst (start_pulse d)"] assms(1,2) by simp
  show ?thesis
    using mm assms(3)
    by (auto simp add: app_attribute_update_cb_def trigger_frame_ok case_prod_beta)
qed

text \<open>The callback stores no target mode but 0, 1, 2 and 3.\<close>

lemma matching_mode_range: "matching_mode d ep = Some m \<Longrightarrow> m < 4"
  by (auto simp add: matching_mode_def upt_4 split: if_splits)

lemma tap_target_range:
  assumes "app_attribute_update_cb d ty ep is_onoff v t = Inr (d', a)"
  shows "g_target_mode d' = g_target_mode d \<or> (0 \<le> g_target_mode d' \<and> g_target_mode d' \<le> 3)"
  using assms
  by (auto simp add: app_attribute_update_cb_def start_pulse_def stop_pulse_def Let_def
      split: if_splits sum.splits option.splits prod.splits dest!: matching_mode_range)

lemma set_mode_frame_1: "uart_send_frame CMD_SET_MODE [1] = Inr [0xA5, 0x02, 0x02, 0x01, 0x64]"
proof -
  have "crc8 [2, 2, 1] = 0x64" by code_simp
  then show ?thesis
    by (simp add: uart_send_frame_eq frame_bytes_def CMD_SET_MODE_def FRAME_START_def)
qed

lemma iteration_executes_1:
  assumes "g_target_mode d = 1" "g_current_mode d \<noteq> 1" "200000 \<le> now - g_last_tap_time d"
    "now - g_last_tap_time d < 5000000"
  shows "mode_sync_iteration d now =
           Inr (d\<lparr>g_current_mode := 1, g_target_mode := -1, g_syncing_modes := False,
                  g_last_execution_time := now\<rparr>,
                [Uart_write [0xA5, 0x02, 0x02, 0x01, 0x64], Report 0 False, Task_delay 10,
                 Report 2 False, Task_delay 10, Report 3 False, Task_delay 10, Task_delay 50,
                 Report 1 True], [])"
proof -
  have a: "200 \<le> c_div (now - g_last_tap_time d) 1000"
    using assms(3) by (simp add: c_div_ge_200)
  have b: "c_div (now - g_last_tap_time d) 1000 < 5000"
    using assms(4) c_div_ge_5000 [of "now - g_last_tap_time d"] by simp
  have c: "uint (g_current_mode d) \<noteq> 1"
    using assms(2) by (metis uint_1_eq word_uint_eq_iff)
  show ?thesis
    using assms(1) a b c
    by (simp add: mode_sync_iteration_def Let_def primary_execution_def set_mode_frame_1
        mode_reports_1 cleanup_idle cleanup_reset_def)
qed

lemma iteration_executes_1_any:
  assumes "g_target_mode d = 1" "g_current_mode d \<noteq> 1" "200000 \<le> now - g_last_tap_time d"
  shows "\<exists>d' reasserted.
           mode_sync_iteration d now =
             Inr (d',
                [Uart_write [0xA5, 0x02, 0x02, 0x01, 0x64], Report 0 False, Task_delay 10,
                 Report 2 False, Task_delay 10, Report 3 False, Task_delay 10, Task_delay 50,
                 Report 1 True], reasserted)
         \<and> g_target_mode d' = -1 \<and> g_current_mode d' = 1"
proof -
  let ?x = "[Uart_write [0xA5, 0x02, 0x02, 0x01, 0x64], Report 0 False, Task_delay 10,
                 Report 2 False, Task_delay 10, Report 3 False, Task_delay 10, Task_delay 50,
                 Report 1 True]"
  let ?d1 = "d\<lparr>g_current_mode := 1, g_target_mode := -1, g_syncing_modes := False,
                  g_last_execution_time := now\<rparr>"
  have a: "200 \<le> c_div (now - g_last_tap_time d) 1000"
    using assms(3) by (simp add: c_div_ge_200)
  have c: "uint (g_current_mode d) \<noteq> 1"
    using assms(2) by (metis uint_1_eq word_uint_eq_iff)
  have p: "primary_execution d now (c_div (now - g_last_tap_time d) 1000) = Inr (?d1, ?x)"
    using assms(1) a c
    by (simp add: primary_execution_def Let_def set_mode_frame_1 mode_reports_1)
  have "\<exists>d2 re. safety_cleanup ?d1 (c_div (now - g_last_execution_time d) 1000)
                   (c_div (now - g_last_tap_time d) 1000) = Inr (d2, re)
          \<and> g_target_mode d2 = -1 \<and> g_current_mode d2 = 1"
    by (simp add: safety_cleanup_def mode_reports_1)
  then obtain d2 re where
    s: "safety_cleanup ?d1 (c_div (now - g_last_execution_time d) 1000)
                   (c_div (now - g_last_tap_time d) 1000) = Inr (d2, re)"
    and d2: "g_target_mode d2 = -1" "g_current_mode d2 = 1"
    by blast
  have "mode_sync_iteration d now = Inr (cleanup_reset d2, ?x, re)"
    using p s by (simp add: mode_sync_iteration_def Let_def)
  then show ?thesis using d2 by simp
qed

lemma run_settled:
  assumes "g_target_mode d < 0" "unat (g_current_mode d) < 4"
  shows "\<exists>d' obs. arbiter_run d (map Sync_iteration ts) = Inr (d', obs)
            \<and> filter is_executed obs = [] \<and> g_current_mode d' = g_current_mode d"
  using assms
proof (induction ts arbitrary: d)
  case Nil
  then show ?case by simp
next
  case (Cons t ts)
  obtain acts where mr: "mode_reports (g_current_mode d) = Inr acts"
    using Cons.prems(2) by (simp add: mode_reports_def)
  let ?e = "c_div (t - g_last_execution_time d) 1000"
  let ?x = "c_div (t - g_last_tap_time d) 1000"
  obtain d1 re where it: "mode_sync_iteration d t = Inr (d1, [], re)"
    and d1: "g_target_mode d1 < 0" "g_current_mode d1 = g_current_mode d"
    using Cons.prems(1) mr
    by (cases "?e \<ge> 5000 \<and> ?x \<ge> 5000 \<and> \<not> cleanup_done d")
       (auto simp add: mode_sync_iteration_def Let_def primary_idle safety_cleanup_def cleanup_reset_def)
  from Cons.IH [of d1] d1 Cons.prems(2)
  obtain d' obs where "arbiter_run d1 (map Sync_iteration ts) = Inr (d', obs)"
    "filter is_executed obs = []" "g_current_mode d' = g_current_mode d"
    by auto
  then show ?case using it by (simp add: observations_def)
qed

text \<open>
  C2. Let the ids of the mode endpoints 0, 1 and 2 differ, \<^verbatim>\<open>g_current_mode\<close> be different
  from 1 and no synchronisation be under way. A tap on mode 2 at 0 ms and a tap on mode 1
  at 50 ms, with iterations of the task loop at any times up to 50 ms between the taps,
  at any times before 250 ms after the second tap, and then at any times, the first of
  them at \<open>t3\<close>, 250 ms or later, make the task loop perform exactly one primary execution:
  in the iteration at \<open>t3\<close>, the first that starts 200 ms or more after the last tap, to
  mode 1 (the \<^verbatim>\<open>SET_MODE\<close> frame with payload 1, the modes 0, 2 and 3 off, mode 1 on). With
  an iteration at 250 ms the execution is at 250 ms. There is no execution to mode 2.
\<close>

theorem debounce_collapse:
  assumes ids: "g_mode_plugin_ids d 0 \<noteq> g_mode_plugin_ids d 1"
      "g_mode_plugin_ids d 0 \<noteq> g_mode_plugin_ids d 2"
      "g_mode_plugin_ids d 1 \<noteq> g_mode_plugin_ids d 2"
    and cur: "g_current_mode d \<noteq> 1" and sync: "\<not> g_syncing_modes d"
    and ts1: "\<forall>t\<in>set ts1. t \<le> 50000"
    and ts2: "\<forall>t\<in>set ts2. t < 250000"
    and t3: "250000 \<le> t3"
  shows "\<exists>d' obs.
           arbiter_run d
             (Attribute_update (g_mode_plugin_ids d 2) True 0 # map Sync_iteration ts1
              @ Attribute_update (g_mode_plugin_ids d 1) True 50000 # map Sync_iteration ts2
              @ Sync_iteration t3 # map Sync_iteration ts3) = Inr (d', obs)
         \<and> filter is_executed obs =
             [Executed t3
                [Uart_write [0xA5, 0x02, 0x02, 0x01, 0x64], Report 0 False, Task_delay 10,
                 Report 2 False, Task_delay 10, Report 3 False, Task_delay 10, Task_delay 50,
                 Report 1 True]]
         \<and> g_current_mode d' = 1"
proof -
  let ?x = "[Uart_write [0xA5, 0x02, 0x02, 0x01, 0x64], Report 0 False, Task_delay 10,
                 Report 2 False, Task_delay 10, Report 3 False, Task_delay 10, Task_delay 50,
                 Report 1 True]"
  let ?e3 = "Sync_iteration t3 # map Sync_iteration ts3"
  let ?e2 = "Attribute_update (g_mode_plugin_ids d 1) True 50000 # map Sync_iteration ts2 @ ?e3"
  have "\<forall>j<2. g_mode_plugin_ids d j \<noteq> g_mode_plugin_ids d 2"
    using ids(2,3) by (auto simp add: less_2_cases_iff)
  from tap_recorded [OF _ this sync, of 0]
  obtain a1 where t1: "app_attribute_update_cb d PRE_UPDATE (g_mode_plugin_ids d 2) True True 0 =
           Inr ((fst (start_pulse d))\<lparr>g_target_mode := 2, g_last_tap_time := 0\<rparr>, a1)"
    by auto
  define d1 where "d1 = (fst (start_pulse d))\<lparr>g_target_mode := 2, g_last_tap_time := 0\<rparr>"
  have d1: "g_current_mode d1 = g_current_mode d" "g_syncing_modes d1 = g_syncing_modes d"
    "g_mode_plugin_ids d1 = g_mode_plugin_ids d" "g_last_tap_time d1 = 0"
    by (simp_all add: d1_def)
  have "\<forall>t\<in>set ts1. t - g_last_tap_time d1 < 200000" using ts1 d1(4) by auto
  from run_idle [OF this, of ?e2]
  obtain d2 where r2: "arbiter_run d1 (map Sync_iteration ts1 @ ?e2) = arbiter_run d2 ?e2"
    and d2: "g_current_mode d2 = g_current_mode d" "g_syncing_modes d2 = g_syncing_modes d"
    "g_mode_plugin_ids d2 = g_mode_plugin_ids d"
    using d1 by auto
  have "\<forall>j<1. g_mode_plugin_ids d2 j \<noteq> g_mode_plugin_ids d2 1"
    using ids(1) d2(3) by simp
  from tap_recorded [OF _ this, of 50000] sync d2
  obtain a2 where t2: "app_attribute_update_cb d2 PRE_UPDATE (g_mode_plugin_ids d 1) True True 50000 =
           Inr ((fst (start_pulse d2))\<lparr>g_target_mode := 1, g_last_tap_time := 50000\<rparr>, a2)"
    by auto
  define d3 where "d3 = (fst (start_pulse d2))\<lparr>g_target_mode := 1, g_last_tap_time := 50000\<rparr>"
  have d3: "g_current_mode d3 = g_current_mode d" "g_last_tap_time d3 = 50000" "g_target_mode d3 = 1"
    using d2 by (simp_all add: d3_def)
  have "\<forall>t\<in>set ts2. t - g_last_tap_time d3 < 200000" using ts2 d3(2) by auto
  from run_idle [OF this, of ?e3]
  obtain d4 where r4: "arbiter_run d3 (map Sync_iteration ts2 @ ?e3) = arbiter_run d4 ?e3"
    and d4: "g_current_mode d4 = g_current_mode d" "g_last_tap_time d4 = 50000" "g_target_mode d4 = 1"
    using d3 by auto
  have "g_current_mode d4 \<noteq> 1" "200000 \<le> t3 - g_last_tap_time d4"
    using d4 cur t3 by simp_all
  from iteration_executes_1_any [OF d4(3) this]
  obtain d5 re where it: "mode_sync_iteration d4 t3 = Inr (d5, ?x, re)"
    and d5: "g_target_mode d5 = -1" "g_current_mode d5 = 1"
    by blast
  have "g_target_mode d5 < 0" "unat (g_current_mode d5) < 4" using d5 by simp_all
  from run_settled [OF this, of ts3]
  obtain d' obs where r5: "arbiter_run d5 (map Sync_iteration ts3) = Inr (d', obs)"
    and o5: "filter is_executed obs = []" and c5: "g_current_mode d' = 1"
    using d5 by auto
  have "arbiter_run d4 ?e3 = Inr (d', observations t3 ?x re @ obs)"
    using it r5 by simp
  then have "arbiter_run d (Attribute_update (g_mode_plugin_ids d 2) True 0
       # map Sync_iteration ts1 @ ?e2) = Inr (d', observations t3 ?x re @ obs)"
    using t1 r2 t2 r4 unfolding d1_def [symmetric] d3_def [symmetric]
    by (simp del: arbiter_run.simps(3) add: d1_def [symmetric] d3_def [symmetric])
  moreover have "filter is_executed (observations t3 ?x re @ obs) = [Executed t3 ?x]"
    using o5 by (simp add: observations_def)
  ultimately show ?thesis using c5 by blast
qed

text \<open>
  C2 from the boot state, with iterations at 10 to 40 ms, at 50, 150 and 240 ms, at
  250 ms, and at 340 and 5250 ms.
\<close>

theorem debounce_collapse_witness:
  "g_mode_plugin_ids example_device 0 \<noteq> g_mode_plugin_ids example_device 1
   \<and> g_mode_plugin_ids example_device 0 \<noteq> g_mode_plugin_ids example_device 2
   \<and> g_mode_plugin_ids example_device 1 \<noteq> g_mode_plugin_ids example_device 2
   \<and> g_current_mode example_device \<noteq> 1
   \<and> \<not> g_syncing_modes example_device
   \<and> (250000 :: int) \<le> 250000
   \<and> (\<exists>d' obs.
         arbiter_run example_device
           (Attribute_update (g_mode_plugin_ids example_device 2) True 0
            # map Sync_iteration [10000, 20000, 30000, 40000]
            @ Attribute_update (g_mode_plugin_ids example_device 1) True 50000
            # map Sync_iteration [50000, 150000, 240000]
            @ Sync_iteration 250000 # map Sync_iteration [340000, 5250000]) = Inr (d', obs)
         \<and> filter is_executed obs =
             [Executed 250000
                [Uart_write [0xA5, 0x02, 0x02, 0x01, 0x64], Report 0 False, Task_delay 10,
                 Report 2 False, Task_delay 10, Report 3 False, Task_delay 10, Task_delay 50,
                 Report 1 True]]
         \<and> g_current_mode d' = 1)"
proof -
  have h: "g_mode_plugin_ids example_device 0 \<noteq> g_mode_plugin_ids example_device 1"
    "g_mode_plugin_ids example_device 0 \<noteq> g_mode_plugin_ids example_device 2"
    "g_mode_plugin_ids example_device 1 \<noteq> g_mode_plugin_ids example_device 2"
    "g_current_mode example_device \<noteq> 1"
    "\<not> g_syncing_modes example_device"
    "\<forall>t\<in>set [10000, 20000, 30000, 40000 :: int]. t \<le> 50000"
    "\<forall>t\<in>set [50000, 150000, 240000 :: int]. t < 250000"
    "(250000 :: int) \<le> 250000"
    by (simp_all add: example_device_def boot_device_def example_ids_def)
  from debounce_collapse [OF h, of "[340000, 5250000]"] h show ?thesis by blast
qed

text \<open>
  C9. Whenever the condition of the primary execution holds, for a target mode from 0 to 3
  (the callback stores no other), the iteration sends the \<^verbatim>\<open>SET_MODE\<close> frame and then
  reports, in this order: off for each of the three modes other than the target, in
  increasing order, and last on for the target, which is \<^verbatim>\<open>g_current_mode\<close> afterwards. So
  exactly one endpoint is reported on, after the three others were reported off, and no
  off is reported for the target. A safety cleanup in the same iteration repeats the same
  reports.
\<close>

theorem mutual_exclusivity:
  assumes "0 \<le> g_target_mode d" "g_target_mode d \<le> 3"
    "g_target_mode d \<noteq> uint (g_current_mode d)"
    "200 \<le> c_div (now - g_last_tap_time d) 1000"
  shows "\<exists>d' bs acts reasserted.
           mode_sync_iteration d now = Inr (d', Uart_write bs # acts, reasserted)
         \<and> uint (g_current_mode d') = g_target_mode d
         \<and> reports_of acts =
             map (\<lambda>i. (i, False)) (filter (\<lambda>i. i \<noteq> nat (g_target_mode d)) [0..<4])
             @ [(nat (g_target_mode d), True)]
         \<and> (reasserted = [] \<or> reports_of reasserted = reports_of acts)"
proof -
  let ?m = "word_of_int (g_target_mode d) :: u8"
  from mode_reports_of [OF assms(1,2)] obtain acts where
    mr: "mode_reports ?m = Inr acts"
    and ro: "reports_of acts =
             map (\<lambda>i. (i, False)) (filter (\<lambda>i. i \<noteq> nat (g_target_mode d)) [0..<4])
             @ [(nat (g_target_mode d), True)]"
    by blast
  obtain bs where tx: "uart_send_frame CMD_SET_MODE [?m] = Inr bs"
    using send_set_mode_ok by blast
  define d1 where "d1 = d\<lparr>g_current_mode := ?m, g_target_mode := -1, g_syncing_modes := False,
     g_last_execution_time := now\<rparr>"
  have pe: "primary_execution d now (c_div (now - g_last_tap_time d) 1000) = Inr (d1, Uart_write bs # acts)"
    using assms mr tx by (simp add: primary_execution_def Let_def d1_def)
  have um: "uint ?m = g_target_mode d"
    using assms(1,2) by (simp add: uint_word_of_int take_bit_int_eq_self)
  have c1: "g_current_mode d1 = ?m" "g_target_mode d1 = -1" by (simp_all add: d1_def)
  have "\<exists>d2 re. safety_cleanup d1 (c_div (now - g_last_execution_time d) 1000)
        (c_div (now - g_last_tap_time d) 1000) = Inr (d2, re)
      \<and> g_current_mode d2 = ?m \<and> (re = [] \<or> re = acts)"
    using mr c1 by (simp add: safety_cleanup_def)
  then obtain d2 re where sc: "safety_cleanup d1 (c_div (now - g_last_execution_time d) 1000)
        (c_div (now - g_last_tap_time d) 1000) = Inr (d2, re)"
     and d2: "g_current_mode d2 = ?m" and re: "re = [] \<or> re = acts"
    by blast
  have "mode_sync_iteration d now = Inr (cleanup_reset d2, Uart_write bs # acts, re)"
    using pe sc by (simp add: mode_sync_iteration_def Let_def)
  then show ?thesis using um d2 ro re by auto
qed

text \<open>C9 from the boot state with a tap on mode 2 at 0, in the iteration at 200 ms.\<close>

theorem mutual_exclusivity_witness:
  "0 \<le> g_target_mode (example_device\<lparr>g_target_mode := 2\<rparr>)
   \<and> g_target_mode (example_device\<lparr>g_target_mode := 2\<rparr>) \<le> 3
   \<and> g_target_mode (example_device\<lparr>g_target_mode := 2\<rparr>)
       \<noteq> uint (g_current_mode (example_device\<lparr>g_target_mode := 2\<rparr>))
   \<and> 200 \<le> c_div (200000 - g_last_tap_time (example_device\<lparr>g_target_mode := 2\<rparr>)) 1000
   \<and> (\<exists>d' bs acts reasserted.
           mode_sync_iteration (example_device\<lparr>g_target_mode := 2\<rparr>) 200000 =
             Inr (d', Uart_write bs # acts, reasserted)
         \<and> uint (g_current_mode d') = g_target_mode (example_device\<lparr>g_target_mode := 2\<rparr>)
         \<and> reports_of acts =
             map (\<lambda>i. (i, False))
               (filter (\<lambda>i. i \<noteq> nat (g_target_mode (example_device\<lparr>g_target_mode := 2\<rparr>))) [0..<4])
             @ [(nat (g_target_mode (example_device\<lparr>g_target_mode := 2\<rparr>)), True)]
         \<and> (reasserted = [] \<or> reports_of reasserted = reports_of acts))"
proof -
  have h: "0 \<le> g_target_mode (example_device\<lparr>g_target_mode := 2\<rparr>)"
    "g_target_mode (example_device\<lparr>g_target_mode := 2\<rparr>) \<le> 3"
    "g_target_mode (example_device\<lparr>g_target_mode := 2\<rparr>)
       \<noteq> uint (g_current_mode (example_device\<lparr>g_target_mode := 2\<rparr>))"
    "200 \<le> c_div (200000 - g_last_tap_time (example_device\<lparr>g_target_mode := 2\<rparr>)) 1000"
    by (simp_all add: example_device_def boot_device_def c_div_def)
  from mutual_exclusivity [OF h] h show ?thesis by blast
qed

subsection \<open>The safety cleanup\<close>

lemma quiet_iteration:
  assumes "g_target_mode d < 0 \<or> g_target_mode d = uint (g_current_mode d)
           \<or> now - g_last_tap_time d < 200000"
    and "cleanup_done d \<or> now - g_last_execution_time d < 5000000
           \<or> now - g_last_tap_time d < 5000000"
  shows "mode_sync_iteration d now = Inr (cleanup_reset d, [], [])"
proof -
  have a: "g_target_mode d < 0 \<or> g_target_mode d = uint (g_current_mode d)
           \<or> c_div (now - g_last_tap_time d) 1000 < 200"
    using assms(1) c_div_ge_200 [of "now - g_last_tap_time d"] by auto
  have b: "c_div (now - g_last_execution_time d) 1000 < 5000
           \<or> c_div (now - g_last_tap_time d) 1000 < 5000 \<or> cleanup_done d"
    using assms(2) c_div_ge_5000 [of "now - g_last_tap_time d"]
      c_div_ge_5000 [of "now - g_last_execution_time d"] by auto
  show ?thesis
    by (simp add: mode_sync_iteration_def Let_def primary_idle [OF a] cleanup_idle [OF b])
qed

lemma cleanup_reset_idem [simp]: "cleanup_reset (cleanup_reset d) = cleanup_reset d"
  by (simp add: cleanup_reset_def)

lemma cleanup_reset_done [simp]: "cleanup_done (cleanup_reset d) = (cleanup_done d \<and> g_target_mode d < 0)"
  by (auto simp add: cleanup_reset_def)

lemma run_quiet:
  assumes "g_target_mode d < 0 \<or> g_target_mode d = uint (g_current_mode d)
           \<or> start + 10000 * int n \<le> g_last_tap_time d + 200000"
    and "cleanup_done d \<and> g_target_mode d < 0
           \<or> start + 10000 * int n \<le> g_last_execution_time d + 5000000
           \<or> start + 10000 * int n \<le> g_last_tap_time d + 5000000"
  shows "arbiter_run d (idle_iterations start n @ es) =
           arbiter_run (if n = 0 then d else cleanup_reset d) es"
  using assms
proof (induction n arbitrary: start d)
  case 0
  then show ?case by simp
next
  case (Suc n)
  have it: "mode_sync_iteration d start = Inr (cleanup_reset d, [], [])"
    using Suc.prems by (intro quiet_iteration) auto
  have "arbiter_run (cleanup_reset d) (idle_iterations (start + 10000) n @ es) =
           arbiter_run (if n = 0 then cleanup_reset d else cleanup_reset (cleanup_reset d)) es"
    using Suc.prems by (intro Suc.IH) (auto simp add: algebra_simps)
  then show ?case using it by (simp add: observations_def split: sum.splits)
qed

lemma reassert_iteration:
  assumes "g_target_mode d < 0 \<or> g_target_mode d = uint (g_current_mode d)"
    and "\<not> cleanup_done d" "5000000 \<le> now - g_last_execution_time d"
    "5000000 \<le> now - g_last_tap_time d" "mode_reports (g_current_mode d) = Inr acts"
  shows "mode_sync_iteration d now =
           Inr (cleanup_reset (d\<lparr>g_syncing_modes := False, cleanup_done := True\<rparr>), [], acts)"
proof -
  have a: "g_target_mode d < 0 \<or> g_target_mode d = uint (g_current_mode d)
           \<or> c_div (now - g_last_tap_time d) 1000 < 200"
    using assms(1) by auto
  show ?thesis
    using assms(2-5)
    by (simp add: mode_sync_iteration_def Let_def primary_idle [OF a] safety_cleanup_def
        c_div_ge_5000)
qed

text \<open>
  With a tap on the current mode pending, every iteration that starts 5 s or more after
  the last tap and the last execution re-asserts, and leaves the globals as they were: the
  next iteration does the same.
\<close>

lemma reassert_every_iteration:
  assumes "g_target_mode d = uint (g_current_mode d)" "unat (g_current_mode d) < 4"
    and "\<not> cleanup_done d" "\<not> g_syncing_modes d"
    and "5000000 \<le> now - g_last_execution_time d" "5000000 \<le> now - g_last_tap_time d"
  shows "\<exists>acts. mode_sync_iteration d now = Inr (d, [], acts) \<and> acts \<noteq> []"
proof -
  obtain acts where m: "mode_reports (g_current_mode d) = Inr acts" and n: "acts \<noteq> []"
    using assms(2) by (auto simp add: mode_reports_def)
  have t: "0 \<le> g_target_mode d" using assms(1) by simp
  have "cleanup_reset (d\<lparr>g_syncing_modes := False, cleanup_done := True\<rparr>) = d"
    using t assms(3,4) by (simp add: cleanup_reset_def)
  with reassert_iteration [OF _ assms(3,5,6) m] assms(1) n show ?thesis by auto
qed

text \<open>
  With no tap pending, iterations of the task loop at any times execute nothing and
  re-assert at most once, and not at all when the cleanup is already done; a
  re-assertion comes 5 s or more after the last execution and the last tap.
\<close>

lemma one_reassertion_when_settled:
  assumes "g_target_mode d < 0" "unat (g_current_mode d) < 4"
  shows "\<exists>d' obs. arbiter_run d (map Sync_iteration ts) = Inr (d', obs)
            \<and> filter is_executed obs = []
            \<and> length obs \<le> (if cleanup_done d then 0 else 1)
            \<and> (\<forall>t a. Reasserted t a \<in> set obs \<longrightarrow>
                  g_last_execution_time d + 5000000 \<le> t \<and> g_last_tap_time d + 5000000 \<le> t)"
  using assms
proof (induction ts arbitrary: d)
  case Nil
  then show ?case by simp
next
  case (Cons t ts)
  obtain acts where mr: "mode_reports (g_current_mode d) = Inr acts" and ne: "acts \<noteq> []"
    using Cons.prems(2) by (auto simp add: mode_reports_def)
  have p: "g_target_mode d < 0 \<or> g_target_mode d = uint (g_current_mode d)"
    using Cons.prems(1) by simp
  show ?case
  proof (cases "\<not> cleanup_done d \<and> 5000000 \<le> t - g_last_execution_time d
                \<and> 5000000 \<le> t - g_last_tap_time d")
    case True
    let ?d1 = "d\<lparr>g_syncing_modes := False, cleanup_done := True\<rparr>"
    have it: "mode_sync_iteration d t = Inr (?d1, [], acts)"
      using reassert_iteration [OF p _ _ _ mr, of t] True Cons.prems(1)
      by (simp add: cleanup_reset_def)
    from Cons.IH [of ?d1] Cons.prems
    obtain d' obs where "arbiter_run ?d1 (map Sync_iteration ts) = Inr (d', obs)"
      "filter is_executed obs = []" "length obs \<le> 0"
      by auto
    then show ?thesis using it True ne by (simp add: observations_def)
  next
    case False
    have it: "mode_sync_iteration d t = Inr (d, [], [])"
      using quiet_iteration [of d t] False Cons.prems(1) by (auto simp add: cleanup_reset_def)
    from Cons.IH [OF Cons.prems]
    obtain d' obs where "arbiter_run d (map Sync_iteration ts) = Inr (d', obs)"
      "filter is_executed obs = []" "length obs \<le> (if cleanup_done d then 0 else 1)"
      "\<forall>t a. Reasserted t a \<in> set obs \<longrightarrow>
                  g_last_execution_time d + 5000000 \<le> t \<and> g_last_tap_time d + 5000000 \<le> t"
      by blast
    then show ?thesis using it by (simp add: observations_def)
  qed
qed

text \<open>
  C3 does not hold of the code when a tap selects the mode that is already current. From
  the boot state, with the task loop iterating every 10 ms: a tap on mode 1 at 0 is
  executed at 200 ms and re-asserted once, at 5200 ms. A second tap on mode 1, now the
  current mode, arrives at 10 s. It is never executed, so \<^verbatim>\<open>g_target_mode\<close> stays set and
  each iteration clears \<^verbatim>\<open>cleanup_done\<close> again: from 15 s on every iteration re-asserts (at
  15000, 15090 and 15180 ms), with no tap in between.
\<close>

theorem reassertion_repeats:
  "observed example_device
     ([Attribute_update 3 True 0] @ idle_iterations 0 20 @ [Sync_iteration 200000]
      @ idle_iterations 290000 491 @ [Sync_iteration 5200000]
      @ idle_iterations 5290000 471
      @ [Attribute_update 3 True 10000000] @ idle_iterations 10000000 500
      @ [Sync_iteration 15000000, Sync_iteration 15090000, Sync_iteration 15180000]) =
   Some
     [Executed 200000
        [Uart_write [0xA5, 0x02, 0x02, 0x01, 0x64], Report 0 False, Task_delay 10,
         Report 2 False, Task_delay 10, Report 3 False, Task_delay 10, Task_delay 50,
         Report 1 True],
      Reasserted 5200000
        [Report 0 False, Task_delay 10, Report 2 False, Task_delay 10, Report 3 False,
         Task_delay 10, Task_delay 50, Report 1 True],
      Reasserted 15000000
        [Report 0 False, Task_delay 10, Report 2 False, Task_delay 10, Report 3 False,
         Task_delay 10, Task_delay 50, Report 1 True],
      Reasserted 15090000
        [Report 0 False, Task_delay 10, Report 2 False, Task_delay 10, Report 3 False,
         Task_delay 10, Task_delay 50, Report 1 True],
      Reasserted 15180000
        [Report 0 False, Task_delay 10, Report 2 False, Task_delay 10, Report 3 False,
         Task_delay 10, Task_delay 50, Report 1 True]]"
proof -
  let ?x = "[Uart_write [0xA5, 0x02, 0x02, 0x01, 0x64], Report 0 False, Task_delay 10,
         Report 2 False, Task_delay 10, Report 3 False, Task_delay 10, Task_delay 50,
         Report 1 True]"
  let ?r = "[Report 0 False, Task_delay 10, Report 2 False, Task_delay 10, Report 3 False,
         Task_delay 10, Task_delay 50, Report 1 True]"
  define d1 where "d1 = example_device\<lparr>g_pulse_active := True, g_target_mode := 1, g_last_tap_time := 0\<rparr>"
  define d2 where "d2 = d1\<lparr>g_current_mode := 1, g_target_mode := -1, g_syncing_modes := False,
     g_last_execution_time := 200000\<rparr>"
  define d3 where "d3 = d2\<lparr>g_syncing_modes := False, cleanup_done := True\<rparr>"
  define d4 where "d4 = d3\<lparr>g_target_mode := 1, g_last_tap_time := 10000000\<rparr>"
  define d5 where "d5 = d4\<lparr>cleanup_done := False\<rparr>"
  note defs = d1_def d2_def d3_def d4_def d5_def example_device_def boot_device_def
  have id1: "g_mode_plugin_ids example_device 1 = 3"
    by (simp add: example_device_def boot_device_def example_ids_def)
  have tap1: "\<exists>a. app_attribute_update_cb example_device PRE_UPDATE 3 True True 0 = Inr (d1, a)"
    using tap_recorded [of 1 example_device 0]
    by (simp add: defs example_ids_def start_pulse_def)
  have q1: "arbiter_run d1 (idle_iterations 0 20 @ es) = arbiter_run d1 es" for es
    by (subst run_quiet) (simp_all add: defs cleanup_reset_def)
  have x1: "mode_sync_iteration d1 200000 = Inr (d2, ?x, [])"
    unfolding d2_def by (rule iteration_executes_1) (simp_all add: defs)
  have q2: "arbiter_run d2 (idle_iterations 290000 491 @ es) = arbiter_run d2 es" for es
    by (subst run_quiet) (simp_all add: defs cleanup_reset_def)
  have r1: "mode_sync_iteration d2 5200000 = Inr (d3, [], ?r)"
    by (subst reassert_iteration [where acts = ?r])
       (simp_all add: defs cleanup_reset_def mode_reports_1)
  have q3: "arbiter_run d3 (idle_iterations 5290000 471 @ es) = arbiter_run d3 es" for es
    by (subst run_quiet) (simp_all add: defs cleanup_reset_def)
  have id3: "g_mode_plugin_ids d3 1 = 3"
    by (simp add: defs example_ids_def)
  have tap2: "\<exists>a. app_attribute_update_cb d3 PRE_UPDATE 3 True True 10000000 = Inr (d4, a)"
    using tap_recorded [of 1 d3 10000000]
    by (simp add: defs example_ids_def start_pulse_def)
  have q4: "arbiter_run d4 (idle_iterations 10000000 500 @ es) = arbiter_run d5 es" for es
    by (subst run_quiet) (simp_all add: defs cleanup_reset_def)
  have r2: "mode_sync_iteration d5 now = Inr (d5, [], ?r)" if "15000000 \<le> now" for now
    using that
    by (subst reassert_iteration [where acts = ?r])
       (simp_all add: defs cleanup_reset_def mode_reports_1)
  have "arbiter_run d5 [Sync_iteration 15000000, Sync_iteration 15090000, Sync_iteration 15180000] =
     Inr (d5, [Reasserted 15000000 ?r, Reasserted 15090000 ?r, Reasserted 15180000 ?r])"
    by (simp add: r2 observations_def)
  then have "arbiter_run d3 ([Attribute_update 3 True 10000000] @ idle_iterations 10000000 500
      @ [Sync_iteration 15000000, Sync_iteration 15090000, Sync_iteration 15180000]) =
     Inr (d5, [Reasserted 15000000 ?r, Reasserted 15090000 ?r, Reasserted 15180000 ?r])"
    using tap2 by (auto simp add: q4)
  then have "arbiter_run d2 ([Sync_iteration 5200000]
      @ idle_iterations 5290000 471
      @ [Attribute_update 3 True 10000000] @ idle_iterations 10000000 500
      @ [Sync_iteration 15000000, Sync_iteration 15090000, Sync_iteration 15180000]) =
     Inr (d5, [Reasserted 5200000 ?r, Reasserted 15000000 ?r, Reasserted 15090000 ?r, Reasserted 15180000 ?r])"
    by (simp add: r1 q3 observations_def)
  then have "arbiter_run d1 ([Sync_iteration 200000]
      @ idle_iterations 290000 491 @ [Sync_iteration 5200000]
      @ idle_iterations 5290000 471
      @ [Attribute_update 3 True 10000000] @ idle_iterations 10000000 500
      @ [Sync_iteration 15000000, Sync_iteration 15090000, Sync_iteration 15180000]) =
     Inr (d5, [Executed 200000 ?x, Reasserted 5200000 ?r, Reasserted 15000000 ?r, Reasserted 15090000 ?r, Reasserted 15180000 ?r])"
    by (simp add: x1 q2 observations_def)
  then have "arbiter_run example_device ([Attribute_update 3 True 0] @ idle_iterations 0 20 @ [Sync_iteration 200000]
      @ idle_iterations 290000 491 @ [Sync_iteration 5200000]
      @ idle_iterations 5290000 471
      @ [Attribute_update 3 True 10000000] @ idle_iterations 10000000 500
      @ [Sync_iteration 15000000, Sync_iteration 15090000, Sync_iteration 15180000]) =
     Inr (d5, [Executed 200000 ?x, Reasserted 5200000 ?r, Reasserted 15000000 ?r, Reasserted 15090000 ?r, Reasserted 15180000 ?r])"
    using tap1 by (auto simp add: q1)
  then show ?thesis by (simp add: observed_def)
qed

end
